theory Spec2Isabelle
  imports Main "HOL-Library.Signed_Division"
begin

section \<open>Machine arithmetic and characters\<close>

text \<open>
  C++ integer division and remainder truncate towards zero: they are \<open>sdiv\<close> and
  \<open>smod\<close> on \<open>int\<close>. A \<open>time_t\<close> is a signed integer; it is modelled as \<open>int\<close>
  (no operation of the code below can make it larger in magnitude than its input).
  Converting a signed value to \<open>unsigned int\<close> reduces it modulo \<open>2 ^ 32\<close>.
\<close>

definition to_unsigned :: "int \<Rightarrow> nat" where
  "to_unsigned x = nat (x mod 2 ^ 32)"

text \<open>
  The value of a \<open>char\<close> in an arithmetic expression. On the x86-64 targets of the
  server \<open>char\<close> is signed, so the bytes from 128 on are negative.
\<close>

definition char_val :: "char \<Rightarrow> int" where
  "char_val c = (if (of_char c :: nat) < 128 then int (of_char c) else int (of_char c) - 256)"

text \<open>\<open>std::string_view::npos\<close>, the largest \<open>size_t\<close>.\<close>

definition npos :: nat where
  "npos = 2 ^ 64 - 1"

text \<open>\<open>string_view::find(ch)\<close>: the index of the first occurrence, or \<open>npos\<close>.\<close>

fun find_from :: "char \<Rightarrow> string \<Rightarrow> nat \<Rightarrow> nat" where
  "find_from ch [] i = npos"
| "find_from ch (c # cs) i = (if c = ch then i else find_from ch cs (Suc i))"

definition sv_find :: "string \<Rightarrow> char \<Rightarrow> nat" where
  "sv_find s ch = find_from ch s 0"

section \<open>Snapshot schedule: \<open>server_family.cc\<close>\<close>

record SnapshotSpec =
  hour_spec :: string
  minute_spec :: string

text \<open>
  The loop of \<open>IsValidSaveScheduleNibble\<close> over the characters still to read, with the
  running \<open>unsigned int min_match\<close> (arithmetic modulo \<open>2 ^ 32\<close>).
\<close>

fun nibble_valid_loop :: "string \<Rightarrow> nat \<Rightarrow> nat \<Rightarrow> bool" where
  "nibble_valid_loop [] mx min_match = (min_match \<le> mx)"
| "nibble_valid_loop (c # cs) mx min_match =
     (if c \<noteq> CHR ''*'' \<and> (char_val c < char_val CHR ''0'' \<or> char_val c > char_val CHR ''9'')
      then False
      else nibble_valid_loop cs mx
             (to_unsigned (int ((min_match * 10) mod 2 ^ 32)
                + (if c = CHR ''*'' then 0 else char_val c - char_val CHR ''0''))))"

definition IsValidSaveScheduleNibble :: "string \<Rightarrow> nat \<Rightarrow> bool" where
  "IsValidSaveScheduleNibble time mx = nibble_valid_loop time mx 0"

definition ParseSaveSchedule :: "string \<Rightarrow> SnapshotSpec option" where
  "ParseSaveSchedule time =
     (if length time < 3 \<or> length time > 5 then None
      else
        let separator_idx = sv_find time CHR '':'' in
        if separator_idx = 0 \<or> separator_idx \<ge> 3 then None
        else
          let spec = \<lparr>hour_spec = take separator_idx time,
                      minute_spec = drop (separator_idx + 1) time\<rparr> in
          if minute_spec spec \<noteq> ''*'' \<and> length (minute_spec spec) \<noteq> 2 then None
          else if IsValidSaveScheduleNibble (hour_spec spec) 23
                  \<and> IsValidSaveScheduleNibble (minute_spec spec) 59
               then Some spec
               else None)"

text \<open>
  The loop of \<open>DoesTimeNibbleMatchSpecifier\<close>. The second argument is \<open>i + 1\<close> for the
  signed loop index \<open>i\<close>, which runs from \<open>length - 1\<close> down to \<open>0\<close> (for the empty
  string \<open>i\<close> starts at \<open>-1\<close> and the body never runs).
\<close>

fun nibble_match_loop :: "string \<Rightarrow> nat \<Rightarrow> nat \<Rightarrow> bool" where
  "nibble_match_loop time_spec 0 current_time = (current_time = 0)"
| "nibble_match_loop time_spec (Suc i) current_time =
     (if time_spec ! i \<noteq> CHR ''*''
         \<and> int (current_time mod 10) \<noteq> char_val (time_spec ! i) - char_val CHR ''0''
      then False
      else nibble_match_loop time_spec i (current_time div 10))"

definition DoesTimeNibbleMatchSpecifier :: "string \<Rightarrow> nat \<Rightarrow> bool" where
  "DoesTimeNibbleMatchSpecifier time_spec current_time =
     (if time_spec = ''*'' then True
      else nibble_match_loop time_spec (length time_spec) current_time)"

definition DoesTimeMatchSpecifier :: "SnapshotSpec \<Rightarrow> int \<Rightarrow> bool" where
  "DoesTimeMatchSpecifier spec now =
     (let hour = to_unsigned ((now sdiv 3600) smod 24);
          mn = to_unsigned ((now sdiv 60) smod 60)
      in DoesTimeNibbleMatchSpecifier (hour_spec spec) hour
         \<and> DoesTimeNibbleMatchSpecifier (minute_spec spec) mn)"

subsection \<open>The specification's reading of the schedule\<close>

text \<open>A character of a schedule is a decimal digit or the wildcard.\<close>

definition digit_char :: "nat \<Rightarrow> char" where
  "digit_char d = char_of (48 + d)"

definition is_digit_or_star :: "char \<Rightarrow> bool" where
  "is_digit_or_star c = (c = CHR ''*'' \<or> c \<in> digit_char ` {0..9})"

text \<open>The smallest value a pattern matches: its decimal reading with every \<open>*\<close> read as 0.\<close>

definition min_substitution :: "string \<Rightarrow> nat" where
  "min_substitution s =
     foldl (\<lambda>acc c. 10 * acc + (if c = CHR ''*'' then 0 else of_char c - 48)) 0 s"

text \<open>
  \<open>schedule_form s hh mm\<close>: the string \<open>s\<close> is \<open>hh:mm\<close> with the lengths, characters and
  bounds that the specification asks of a save schedule.
\<close>

definition schedule_form :: "string \<Rightarrow> string \<Rightarrow> string \<Rightarrow> bool" where
  "schedule_form s hh mm =
     (s = hh @ '':'' @ mm
      \<and> (length hh = 1 \<or> length hh = 2)
      \<and> (length mm = 2 \<or> mm = ''*'')
      \<and> list_all is_digit_or_star hh \<and> list_all is_digit_or_star mm
      \<and> min_substitution hh \<le> 23 \<and> min_substitution mm \<le> 59)"

text \<open>
  The digit positions of a pattern, right-aligned against the decimal digits of \<open>n\<close>:
  position \<open>i\<close> from the right faces the digit \<open>(n div 10 ^ i) mod 10\<close>. The pattern
  agrees with \<open>n\<close> when every position that is not a wildcard holds the facing digit.
\<close>

definition digits_agree :: "string \<Rightarrow> nat \<Rightarrow> bool" where
  "digits_agree ts n =
     list_all (\<lambda>i. rev ts ! i = CHR ''*'' \<or> rev ts ! i = digit_char ((n div 10 ^ i) mod 10))
       [0..<length ts]"

text \<open>
  What the code asks of one pattern: the greedy wildcard, or agreement of the digit
  positions together with no digit of \<open>n\<close> left over beyond the pattern's length.
\<close>

definition pattern_matches :: "string \<Rightarrow> nat \<Rightarrow> bool" where
  "pattern_matches ts n = (ts = ''*'' \<or> (digits_agree ts n \<and> n < 10 ^ length ts))"

section \<open>Snapshot file names\<close>

text \<open>
  \<open>std::filesystem::path\<close> in its generic format, as the string of its bytes. The three
  operations below follow the C++ standard library: the filename is what follows the last
  \<open>/\<close>; the extension starts at the rightmost period of the filename, and is empty for
  \<open>.\<close>, for \<open>..\<close>, for a filename without a period and for a filename whose only period
  is its first character; \<open>replace_extension()\<close> without an argument removes the extension;
  \<open>+=\<close> appends bytes without a separator.
\<close>

definition path_filename :: "string \<Rightarrow> string" where
  "path_filename p = rev (takeWhile (\<lambda>c. c \<noteq> CHR ''/'') (rev p))"

definition path_extension :: "string \<Rightarrow> string" where
  "path_extension p =
     (let f = path_filename p;
          after_dot = rev (takeWhile (\<lambda>c. c \<noteq> CHR ''.'') (rev f))
      in if f = ''.'' \<or> f = ''..'' \<or> CHR ''.'' \<notin> set f then []
         else if Suc (length after_dot) = length f then []
         else CHR ''.'' # after_dot)"

definition has_extension :: "string \<Rightarrow> bool" where
  "has_extension p = (path_extension p \<noteq> [])"

definition replace_extension :: "string \<Rightarrow> string" where
  "replace_extension p = take (length p - length (path_extension p)) p"

text \<open>The decimal digits of a number, as \<open>absl::StrCat\<close> prints an unsigned value.\<close>

fun dec_string :: "nat \<Rightarrow> string" where
  "dec_string n =
     (if n < 10 then [digit_char n] else dec_string (n div 10) @ [digit_char (n mod 10)])"

declare dec_string.simps [simp del]

text \<open>\<open>absl::Dec(v, absl::kZeroPad4)\<close> for \<open>v \<ge> 0\<close>: zeros on the left up to a width of 4.\<close>

definition Dec_kZeroPad4 :: "nat \<Rightarrow> string" where
  "Dec_kZeroPad4 v = replicate (4 - length (dec_string v)) CHR ''0'' @ dec_string v"

text \<open>The number that a string of decimal digits denotes.\<close>

definition dec_value :: "string \<Rightarrow> nat" where
  "dec_value s = foldl (\<lambda>acc c. 10 * acc + (of_char c - 48)) 0 s"

text \<open>
  \<open>ExtendFilename(now, shard, filename)\<close>, returning the new value of \<open>*filename\<close>.
  \<open>FormatTs\<close> (\<open>absl::FormatTime\<close> with \<open>%Y-%m-%dT%H:%M:%S\<close> in the local time zone) is a
  parameter; \<open>absl::Time\<close> is carried as unix seconds, the only resolution its two
  consumers (\<open>FormatTs\<close> and \<open>ToUnixSeconds\<close>) read.
\<close>

definition ExtendFilename :: "(int \<Rightarrow> string) \<Rightarrow> int \<Rightarrow> int \<Rightarrow> string \<Rightarrow> string" where
  "ExtendFilename FormatTs now shard filename =
     (if shard < 0 then
        (if \<not> has_extension filename
         then (let ft_time = FormatTs now in filename @ (''-'' @ ft_time @ ''.rdb''))
         else filename)
      else
        (let ft_time = FormatTs now;
             filename1 = replace_extension filename
         in filename1 @ (''-'' @ ft_time @ ''-'' @ Dec_kZeroPad4 (nat shard) @ ''.dfs'')))"

section \<open>Saving: \<open>ServerFamily::DoSave\<close>, \<open>Save\<close>, \<open>LastSave\<close> and the scheduler\<close>

datatype GlobalState = ACTIVE | LOADING | SAVING | SHUTTING_DOWN

text \<open>
  Modelled from the spec: \<open>GlobalStateName\<close> is declared outside the given sources. The
  specification names the states \<open>ACTIVE\<close>, \<open>LOADING\<close>, \<open>SAVING\<close>, \<open>SHUTTING_DOWN\<close> and
  reports a state conflict "with the observed state name".
\<close>

definition GlobalStateName :: "GlobalState \<Rightarrow> string" where
  "GlobalStateName g =
     (case g of ACTIVE \<Rightarrow> ''ACTIVE'' | LOADING \<Rightarrow> ''LOADING'' | SAVING \<Rightarrow> ''SAVING''
      | SHUTTING_DOWN \<Rightarrow> ''SHUTTING_DOWN'')"

text \<open>
  Modelled from the spec: \<open>Service::SwitchState(from, to)\<close> is defined outside the given
  sources. The specification: it "atomically checks \<open>from\<close> and returns the actual state
  observed"; the callers in \<open>server_family.cc\<close> (\<open>Load\<close>, \<open>DoSave\<close>) take the result \<open>to\<close>
  for the success of the switch. The pair is the returned state and the new global state.
\<close>

definition SwitchState :: "GlobalState \<Rightarrow> GlobalState \<Rightarrow> GlobalState \<Rightarrow> GlobalState \<times> GlobalState" where
  "SwitchState from to global_state =
     (if global_state \<noteq> from then (global_state, global_state) else (to, to))"

text \<open>
  \<open>std::error_code\<close>: \<open>None\<close> is success (the code tests \<open>if (ec)\<close>), \<open>Some e\<close> an error.
\<close>

datatype errc = operation_in_progress | bad_message | os_error nat

type_synonym error_code = "errc option"

definition UpdateError :: "error_code \<Rightarrow> error_code \<Rightarrow> error_code" where
  "UpdateError src dest = (if dest = None then src else dest)"

record LastSaveInfo =
  save_time :: int
  file_name :: string
  freq_map :: "(string \<times> nat) list"

text \<open>
  The part of the server that saving reads and writes: the global state of the service,
  \<open>last_save_info_\<close>, \<open>is_saving_\<close>, and the paths that \<open>uring::OpenLinux\<close> has opened for
  writing so far (a trace, oldest first).
\<close>

record server =
  global_state :: GlobalState
  last_save_info :: LastSaveInfo
  is_saving :: bool
  opened_files :: "string list"

text \<open>
  What one call of \<open>DoSave\<close> meets outside the program: the flags, the shard count, the
  clock and the outcomes of the file system and of the opaque \<open>RdbSaver\<close> (header, body,
  close; per snapshot index), and the type frequencies the closed snapshots report, in the
  iteration order of \<open>rdb_name_map\<close>.
\<close>

record save_env =
  FLAGS_dir :: string
  FLAGS_dbfilename :: string
  CreateDirs :: error_code
  shard_set_size :: nat
  Now :: int
  FormatTs :: "int \<Rightarrow> string"
  OpenLinux :: "string \<Rightarrow> error_code"
  Start :: "nat \<Rightarrow> error_code"
  SaveBody :: "nat \<Rightarrow> error_code"
  Close :: "nat \<Rightarrow> error_code"
  rdb_name_map :: "(string \<times> nat) list"

text \<open>
  The vector \<open>snapshots\<close>: \<open>None\<close> is a null pointer, \<open>Some started\<close> an \<open>RdbSnapshot\<close>
  with its \<open>started_\<close> flag. The state of the callbacks is the shared \<open>ec\<close>, the vector
  and the trace of opened files.
\<close>

type_synonym save_acc = "error_code \<times> bool option list \<times> string list"

text \<open>The hop callback of the native format on shard \<open>sid\<close>.\<close>

definition shard_cb :: "save_env \<Rightarrow> string \<Rightarrow> string \<Rightarrow> nat \<Rightarrow> save_acc \<Rightarrow> save_acc" where
  "shard_cb env filename path sid acc =
     (case acc of (ec, snapshots, files) \<Rightarrow>
        let shard_file = ExtendFilename (FormatTs env) (Now env) (int sid) filename;
            abs_path = path @ shard_file
        in (case OpenLinux env abs_path of
              None \<Rightarrow>
                (let local_ec = Start env sid;
                     snapshots1 = snapshots[sid := Some (local_ec = None)]
                 in ((if local_ec \<noteq> None then UpdateError local_ec ec else ec),
                     snapshots1, files @ [abs_path]))
            | Some e \<Rightarrow> (UpdateError (Some e) ec, snapshots, files)))"

definition save_cb :: "save_env \<Rightarrow> bool option list \<Rightarrow> nat \<Rightarrow> error_code \<Rightarrow> error_code" where
  "save_cb env snapshots index ec =
     (if snapshots ! index = Some True
      then (let local_ec = SaveBody env index
            in if local_ec \<noteq> None then UpdateError local_ec ec else ec)
      else ec)"

definition close_cb :: "save_env \<Rightarrow> bool option list \<Rightarrow> nat \<Rightarrow> error_code \<Rightarrow> error_code" where
  "close_cb env snapshots index ec =
     (if snapshots ! index \<noteq> None then UpdateError (Close env index) ec else ec)"

text \<open>
  \<open>RunStage\<close>: the callback on every shard (native) or on index 0 (legacy). The shards
  run in parallel and merge their errors under a mutex; the model takes them in the
  order of their ids, which fixes which error is kept but not whether one is.
\<close>

definition RunStage :: "bool \<Rightarrow> nat \<Rightarrow> (nat \<Rightarrow> 'a \<Rightarrow> 'a) \<Rightarrow> 'a \<Rightarrow> 'a" where
  "RunStage new_version n cb acc = (if new_version then fold cb [0..<n] acc else cb 0 acc)"

text \<open>
  The two stages, the final file name and the publication of \<open>LastSaveInfo\<close>: the code
  of \<open>DoSave\<close> from \<open>is_saving_.store(true)\<close> to \<open>return ec\<close>.
\<close>

definition finish_save ::
  "save_env \<Rightarrow> bool \<Rightarrow> string \<Rightarrow> string \<Rightarrow> save_acc \<Rightarrow> server \<Rightarrow> error_code \<times> server" where
  "finish_save env new_version filename path acc s =
     (case acc of (ec0, snapshots, files) \<Rightarrow>
        let n = shard_set_size env;
            ec1 = RunStage new_version n (save_cb env snapshots) ec0;
            ec2 = RunStage new_version n (close_cb env snapshots) ec1;
            path1 = (if new_version
                     then path @ ExtendFilename (FormatTs env) (Now env) 0 filename
                     else path);
            s1 = s\<lparr>is_saving := False, opened_files := opened_files s @ files\<rparr>
        in if ec2 = None
           then (ec2, s1\<lparr>last_save_info :=
                   \<lparr>save_time = Now env, file_name = path1, freq_map = rdb_name_map env\<rparr>\<rparr>)
           else (ec2, s1))"

text \<open>
  \<open>DoSave(new_version, trans, err_details)\<close>: the returned code, the value of
  \<open>*err_details\<close> (both callers pass an empty string) and the server afterwards. The
  scoped guard \<open>rev_state\<close> runs on every return that follows its declaration.
\<close>

definition DoSave :: "save_env \<Rightarrow> bool \<Rightarrow> server \<Rightarrow> error_code \<times> string \<times> server" where
  "DoSave env new_version s =
     (let dir_path = FLAGS_dir env;
          ec = (if dir_path \<noteq> [] then CreateDirs env else None)
      in if ec \<noteq> None then (ec, ''create-dir '', s)
      else
        let filename = (if FLAGS_dbfilename env = [] then ''dump'' else FLAGS_dbfilename env);
            path = dir_path;
            (new_state, g1) = SwitchState ACTIVE SAVING (global_state s)
        in if new_state \<noteq> SAVING
           then (Some operation_in_progress,
                 GlobalStateName new_state @ '' - can not save database'',
                 s\<lparr>global_state := g1\<rparr>)
           else
             let rev_state = (\<lambda>t. t\<lparr>global_state := snd (SwitchState SAVING ACTIVE (global_state t))\<rparr>);
                 s1 = s\<lparr>global_state := g1\<rparr>;
                 n = shard_set_size env
             in if new_version then
                  (let acc = fold (shard_cb env filename path) [0..<n] (ec, replicate n None, []);
                       (ec3, s2) = finish_save env new_version filename path acc s1
                   in (ec3, [], rev_state s2))
                else
                  (let filename1 = ExtendFilename (FormatTs env) (Now env) (- 1) filename;
                       path1 = path @ filename1
                   in case OpenLinux env path1 of
                        Some e \<Rightarrow> (Some e, [], rev_state s1)
                      | None \<Rightarrow>
                          (let ec1 = Start env 0;
                               acc = (ec1, [Some (ec1 = None)], [path1]);
                               (ec3, s2) = finish_save env new_version filename1 path1 acc s1
                           in (ec3, [], rev_state s2))))"

text \<open>The replies a command sends, as the calls on the reply builder.\<close>

datatype reply =
  SendError string
  | SendUnknownSubCmd string string
  | SendOk
  | StartArray nat
  | SendSimpleString string
  | SendLong int

text \<open>
  Modelled from the spec: the constant \<open>kSyntaxErr\<close> and the RESP line of \<open>SendError\<close> are
  defined outside the given sources; syntax errors are "returned to client via standard
  RESP \<open>-ERR syntax\<close>" and a save failure "produces a \<open>-ERR <err_details><os message>\<close>".
  The line is given without its terminator.
\<close>

definition kSyntaxErr :: string where
  "kSyntaxErr = ''syntax error''"

definition error_line :: "string \<Rightarrow> string" where
  "error_line msg = ''-ERR '' @ msg"

text \<open>\<open>absl::AsciiStrToUpper\<close>, which \<open>ToUpper\<close> applies to an argument in place.\<close>

definition ascii_toupper :: "char \<Rightarrow> char" where
  "ascii_toupper c =
     (if (97::nat) \<le> of_char c \<and> of_char c \<le> (122::nat) then char_of (of_char c - (32::nat)) else c)"

definition ToUpper :: "string \<Rightarrow> string" where
  "ToUpper s = map ascii_toupper s"

text \<open>
  \<open>ServerFamily::Save\<close>. \<open>message\<close> is \<open>error_code::message()\<close>, the text of the operating
  system for a code. \<open>SendUnknownSubCmd sub_cmd cmd\<close> stands for
  \<open>SendError(UnknownSubCmd(sub_cmd, cmd), kSyntaxErrType)\<close>, whose text is built outside
  the given sources.
\<close>

definition Save :: "save_env \<Rightarrow> (errc \<Rightarrow> string) \<Rightarrow> string list \<Rightarrow> server \<Rightarrow> reply list \<times> server" where
  "Save env message args s =
     (if length args > 2 then ([SendError kSyntaxErr], s)
      else if length args = 2 \<and> ToUpper (args ! 1) \<noteq> ''DF''
      then ([SendUnknownSubCmd (ToUpper (args ! 1)) ''SAVE''], s)
      else
        let new_version = (length args = 2);
            (ec, err_detail, s1) = DoSave env new_version s
        in case ec of
             Some e \<Rightarrow> ([SendError (err_detail @ message e)], s1)
           | None \<Rightarrow> ([SendOk], s1))"


text \<open>
  One wake-up of \<open>SnapshotScheduling\<close> at \<open>now = std::time(NULL)\<close>: whether \<open>DoSave(false)\<close> was
  called, its error code, and the server afterwards.
\<close>

definition scheduler_wakeup ::
  "SnapshotSpec \<Rightarrow> int \<Rightarrow> save_env \<Rightarrow> server \<Rightarrow> bool \<times> error_code \<times> server" where
  "scheduler_wakeup spec now env s =
     (if \<not> DoesTimeMatchSpecifier spec now then (False, None, s)
      else
        let last_save = save_time (last_save_info s)
        in if last_save sdiv 60 = now sdiv 60 then (False, None, s)
           else (let (ec, err_details, s1) = DoSave env False s in (True, ec, s1)))"

text \<open>
  The loop of \<open>SnapshotScheduling\<close> over the wake-ups that happen before
  \<open>is_snapshot_done_\<close> is notified, each with its clock reading and environment. The
  result is the server at the end and the wake-up times at which \<open>DoSave\<close> was called.
\<close>

fun SnapshotScheduling ::
  "SnapshotSpec \<Rightarrow> (int \<times> save_env) list \<Rightarrow> server \<Rightarrow> server \<times> int list" where
  "SnapshotScheduling spec [] s = (s, [])"
| "SnapshotScheduling spec ((now, env) # wakeups) s =
     (case scheduler_wakeup spec now env s of
        (called, ec, s1) \<Rightarrow>
          (case SnapshotScheduling spec wakeups s1 of
             (s2, saves) \<Rightarrow> (s2, if called then now # saves else saves)))"

section \<open>Replication: \<open>ServerFamily::ReplConf\<close> and \<open>Replica::Greet\<close>\<close>

text \<open>
  Modelled from the spec: the constant \<open>CONFIG_RUN_ID_SIZE\<close> comes from a header outside
  the given sources; the specification fixes the master replication id at 40 characters.
\<close>

definition CONFIG_RUN_ID_SIZE :: nat where
  "CONFIG_RUN_ID_SIZE = 40"

text \<open>
  The master side: \<open>master_id_\<close> of the server family, the size of the proactor pool, and
  the session registry of \<open>DflyCmd\<close> (the ids handed out and the next one).
\<close>

record master =
  master_id :: string
  pool_size :: nat
  sync_sessions :: "nat list"
  next_sync_id :: nat

text \<open>The connection: the name of its owner and \<open>conn_state.repl_session_id\<close>.\<close>

record conn =
  conn_name :: string
  repl_session_id :: nat

text \<open>
  Modelled from the spec: \<open>DflyCmd::AllocateSyncSession\<close> is defined outside the given
  sources; it "reserves a native sync session" and returns its id.
\<close>

definition AllocateSyncSession :: "master \<Rightarrow> nat \<times> master" where
  "AllocateSyncSession m =
     (next_sync_id m,
      m\<lparr>sync_sessions := sync_sessions m @ [next_sync_id m], next_sync_id := Suc (next_sync_id m)\<rparr>)"

text \<open>
  The loop of \<open>ReplConf\<close> from index \<open>i\<close>. It is entered only when the size of \<open>args\<close> is
  odd, so \<open>i + 1\<close> is an index of \<open>args\<close> whenever \<open>i\<close> is (the code's \<open>DCHECK_LT\<close>).
  The result is the replies, the arguments (upper-cased in place), the master and the
  connection.
\<close>

function ReplConf_loop ::
  "nat \<Rightarrow> string list \<Rightarrow> master \<Rightarrow> conn \<Rightarrow> reply list \<times> string list \<times> master \<times> conn" where
  "ReplConf_loop i args m c =
     (if i < length args then
        (let args1 = args[i := ToUpper (args ! i)];
             cmd = args1 ! i;
             arg = args1 ! (i + 1)
         in if cmd = ''CAPA'' \<and> arg = ''dragonfly'' \<and> length args1 = 3 \<and> i = 1 then
              (let (sid, m1) = AllocateSyncSession m;
                   c1 = c\<lparr>conn_name := ''repl_ctrl_'' @ dec_string sid\<rparr>;
                   sync_id = ''SYNC'' @ dec_string sid;
                   c2 = c1\<lparr>repl_session_id := sid\<rparr>
               in ([StartArray 3, SendSimpleString (master_id m1), SendSimpleString sync_id,
                    SendLong (int (pool_size m1))], args1, m1, c2))
            else ReplConf_loop (i + 2) args1 m c)
      else ([SendOk], args, m, c))"
  by pat_completeness auto
termination
  by (relation "measure (\<lambda>(i, args, m, c). length args - i)") auto

declare ReplConf_loop.simps [simp del]

definition ReplConf ::
  "string list \<Rightarrow> master \<Rightarrow> conn \<Rightarrow> reply list \<times> string list \<times> master \<times> conn" where
  "ReplConf args m c =
     (if length args mod 2 = 0 then ([SendError kSyntaxErr], args, m, c)
      else ReplConf_loop 1 args m c)"

subsection \<open>The replica's handshake\<close>

text \<open>
  A parsed reply element: the \<open>type\<close> of a \<open>RespExpr\<close> with the payload its union holds
  for that type.
\<close>

datatype RespExpr =
  STRING string
  | INT64 int
  | ARRAY "RespExpr list"
  | NIL
  | NIL_ARRAY
  | ERROR string

text \<open>The results of \<open>RedisParser::Parse\<close> that \<open>ReadRespReply\<close> tells apart.\<close>

datatype parser_result = OK | INPUT_PENDING | BAD_INPUT

text \<open>
  One round of the loop of \<open>ReadRespReply\<close>: what \<open>sock_->Recv\<close> returns and, if it is
  not an error, the parser's result with the arguments it leaves in \<open>resp_args_\<close>.
\<close>

record recv_round =
  recv_error :: error_code
  parse_result :: parser_result
  parsed_args :: "RespExpr list"

text \<open>
  \<open>ReadRespReply\<close> over the rounds to come. \<open>None\<close>: the rounds end while the parser still
  waits for input, and the fiber stays in \<open>Recv\<close>. Otherwise the error code, the value of
  \<open>resp_args_\<close> and the rounds left.
\<close>

fun ReadRespReply ::
  "RespExpr list \<Rightarrow> recv_round list \<Rightarrow> (error_code \<times> RespExpr list \<times> recv_round list) option" where
  "ReadRespReply resp_args [] = None"
| "ReadRespReply resp_args (r # rounds) =
     (case recv_error r of
        Some e \<Rightarrow> Some (Some e, resp_args, rounds)
      | None \<Rightarrow>
          if parse_result r = OK \<and> parsed_args r \<noteq> [] then Some (None, parsed_args r, rounds)
          else if parse_result r \<noteq> INPUT_PENDING then Some (Some bad_message, parsed_args r, rounds)
          else ReadRespReply (parsed_args r) rounds)"

text \<open>
  Modelled from the spec: the bits of \<open>state_mask_\<close> are declared in a header outside the
  given sources. The mask is the set of the bits that are set, so \<open>|=\<close> is \<open>insert\<close>.
\<close>

datatype replica_bit = R_ENABLED | R_TCP_CONNECTED | R_GREETED | R_SYNCING | R_SYNC_OK

record replica =
  master_repl_id :: string
  dfly_session_id :: string
  num_df_flows :: nat
  state_mask :: "replica_bit set"
  resp_args :: "RespExpr list"

text \<open>
  The last part of \<open>Greet\<close>: the checks on the reply to \<open>REPLCONF capa dragonfly\<close>, which
  \<open>ReadRespReply\<close> has left, non-empty, in \<open>resp_args_\<close>.
\<close>

definition Greet_capa_reply :: "replica \<Rightarrow> error_code \<times> replica" where
  "Greet_capa_reply r =
     (let args = resp_args r in
      case hd args of
        STRING cmd \<Rightarrow>
          if length args = 1 then
            (if cmd \<noteq> ''OK'' then (Some bad_message, r)
             else (None, r\<lparr>state_mask := insert R_GREETED (state_mask r)\<rparr>))
          else if length args = 3 then
            (case (args ! 0, args ! 1, args ! 2) of
               (STRING param0, STRING param1, INT64 param2) \<Rightarrow>
                 if length param0 \<noteq> CONFIG_RUN_ID_SIZE then (Some bad_message, r)
                 else if param2 \<le> 0 \<or> param2 > 1024 then (Some bad_message, r)
                 else (None, r\<lparr>master_repl_id := param0, dfly_session_id := param1,
                                num_df_flows := nat param2,
                                state_mask := insert R_GREETED (state_mask r)\<rparr>)
             | _ \<Rightarrow> (Some bad_message, r))
          else (Some bad_message, r)
      | _ \<Rightarrow> (Some bad_message, r))"

text \<open>
  One exchange of the first two steps: send a command, read the reply and require the
  single string \<open>expected\<close>. The result is the error code (\<open>Greet\<close> returns when it is
  an error), the replica with its \<open>resp_args_\<close> and the rounds left.
\<close>

definition Greet_expect ::
  "error_code \<Rightarrow> string \<Rightarrow> replica \<Rightarrow> recv_round list
     \<Rightarrow> (error_code \<times> replica \<times> recv_round list) option" where
  "Greet_expect send_ec expected r rounds =
     (case send_ec of
        Some e \<Rightarrow> Some (Some e, r, rounds)
      | None \<Rightarrow>
          (case ReadRespReply (resp_args r) rounds of
             None \<Rightarrow> None
           | Some (ec, args, rest) \<Rightarrow>
               (let r1 = r\<lparr>resp_args := args\<rparr>
                in if ec \<noteq> None then Some (ec, r1, rest)
                   else if length args \<noteq> 1 \<or> hd args \<noteq> STRING expected
                   then Some (Some bad_message, r1, rest)
                   else Some (None, r1, rest))))"

text \<open>
  \<open>Replica::Greet\<close>. \<open>sends\<close> are the values of \<open>serializer.ec()\<close> after the three commands.
  \<open>None\<close>: the master never completes a reply. Otherwise the returned code and the replica.
  (\<open>last_io_time_\<close>, a clock reading, is left out.)
\<close>

definition Greet ::
  "error_code \<times> error_code \<times> error_code \<Rightarrow> recv_round list \<Rightarrow> replica
     \<Rightarrow> (error_code \<times> replica) option" where
  "Greet sends rounds r =
     (case sends of (send_ping, send_capa, send_dragonfly) \<Rightarrow>
       (case Greet_expect send_ping ''PONG'' r rounds of
          None \<Rightarrow> None
        | Some (ec1, r1, rounds1) \<Rightarrow>
           if ec1 \<noteq> None then Some (ec1, r1)
           else
            (case Greet_expect send_capa ''OK'' r1 rounds1 of
               None \<Rightarrow> None
             | Some (ec2, r2, rounds2) \<Rightarrow>
                if ec2 \<noteq> None then Some (ec2, r2)
                else
                 (case send_dragonfly of
                    Some e \<Rightarrow> Some (Some e, r2)
                  | None \<Rightarrow>
                     (case ReadRespReply (resp_args r2) rounds2 of
                        None \<Rightarrow> None
                      | Some (ec3, args, rest) \<Rightarrow>
                          if ec3 \<noteq> None then Some (ec3, r2\<lparr>resp_args := args\<rparr>)
                          else Some (Greet_capa_reply (r2\<lparr>resp_args := args\<rparr>)))))))"

subsection \<open>The specification's reading of the reply to \<open>REPLCONF capa dragonfly\<close>\<close>

text \<open>A legacy Redis master answers with the single string \<open>OK\<close>.\<close>

definition legacy_reply :: "RespExpr list \<Rightarrow> bool" where
  "legacy_reply args = (args = [STRING ''OK''])"

text \<open>
  A native master answers with three elements: a string of exactly 40 bytes, a string,
  and an integer in \<open>[1, 1024]\<close>.
\<close>

definition native_reply :: "RespExpr list \<Rightarrow> string \<Rightarrow> string \<Rightarrow> int \<Rightarrow> bool" where
  "native_reply args repl_id session flows =
     (args = [STRING repl_id, STRING session, INT64 flows]
      \<and> length repl_id = 40 \<and> 1 \<le> flows \<and> flows \<le> 1024)"

section \<open>Sample runs\<close>

text \<open>
  A concrete environment for the examples: directory \<open>/data/\<close>, the default file name,
  two shards, a clock at 2022-10-01 12:30:00 UTC, and a file system and saver that succeed.
\<close>

definition sample_env :: save_env where
  "sample_env =
     \<lparr>FLAGS_dir = ''/data/'', FLAGS_dbfilename = ''dump'', CreateDirs = None,
      shard_set_size = 2, Now = 1664627400, FormatTs = (\<lambda>t. ''2022-10-01T12:30:00''),
      OpenLinux = (\<lambda>p. None), Start = (\<lambda>i. None), SaveBody = (\<lambda>i. None),
      Close = (\<lambda>i. None), rdb_name_map = []\<rparr>"

text \<open>The same environment with a directory in which no file can be opened (\<open>EACCES\<close>).\<close>

definition failing_env :: save_env where
  "failing_env = sample_env\<lparr>OpenLinux := (\<lambda>p. Some (os_error 13))\<rparr>"

text \<open>A server in global state \<open>g\<close> whose last save was at time \<open>t\<close>.\<close>

definition sample_server :: "GlobalState \<Rightarrow> int \<Rightarrow> server" where
  "sample_server g t =
     \<lparr>global_state = g,
      last_save_info = \<lparr>save_time = t, file_name = [], freq_map = []\<rparr>,
      is_saving = False, opened_files = []\<rparr>"

section \<open>Properties of the schedule parser\<close>

lemma char_val_zero: "char_val CHR ''0'' = 48" "char_val CHR ''9'' = 57"
  by (simp_all add: char_val_def)

lemma of_char_bound: "(of_char c :: nat) < 256"
proof -
  have "(of_char c :: nat) mod 256 < 256" by simp
  then show ?thesis by (simp only: of_char_mod_256)
qed

lemma char_val_alt:
  "char_val c = (if (of_char c :: nat) < 128 then int (of_char c :: nat) else int (of_char c :: nat) - 256)"
  by (simp add: char_val_def)

lemma digit_char_image: "c \<in> digit_char ` {0..9} \<longleftrightarrow> 48 \<le> (of_char c :: nat) \<and> (of_char c :: nat) \<le> 57"
proof
  assume "c \<in> digit_char ` {0..9}"
  then obtain d :: nat where "d \<le> 9" "c = char_of (48 + d)" by (auto simp: digit_char_def)
  then show "48 \<le> (of_char c :: nat) \<and> (of_char c :: nat) \<le> 57" by simp
next
  assume a: "48 \<le> (of_char c :: nat) \<and> (of_char c :: nat) \<le> 57"
  have "c = digit_char (of_char c - 48)" using a by (simp add: digit_char_def)
  moreover have "(of_char c :: nat) - 48 \<in> {0..9}" using a by auto
  ultimately show "c \<in> digit_char ` {0..9}" by blast
qed

lemma is_digit_or_star_code:
  "is_digit_or_star c \<longleftrightarrow> \<not> (c \<noteq> CHR ''*'' \<and> (char_val c < char_val CHR ''0'' \<or> char_val c > char_val CHR ''9''))"
  unfolding is_digit_or_star_def digit_char_image char_val_zero
  using of_char_bound [of c] by (auto simp only: char_val_alt split: if_splits)

lemma digit_value:
  "48 \<le> (of_char c :: nat) \<Longrightarrow> (of_char c :: nat) \<le> 57 \<Longrightarrow> char_val c - char_val CHR ''0'' = int (of_char c - 48)"
  by (simp add: char_val_alt char_val_zero del: of_nat_of_char)

lemma nibble_valid_loop_eq:
  "(mm + 1) * 10 ^ length cs \<le> 2 ^ 32 \<Longrightarrow>
   nibble_valid_loop cs mx mm \<longleftrightarrow>
     list_all is_digit_or_star cs
     \<and> foldl (\<lambda>acc c. 10 * acc + (if c = CHR ''*'' then 0 else of_char c - 48)) mm cs \<le> mx"
proof (induction cs arbitrary: mm)
  case Nil
  then show ?case by simp
next
  case (Cons c cs)
  let ?d = "(if c = CHR ''*'' then 0 else of_char c - 48) :: nat"
  show ?case
  proof (cases "is_digit_or_star c")
    case False
    then have "nibble_valid_loop (c # cs) mx mm = False"
      by (simp add: is_digit_or_star_code)
    with False show ?thesis by simp
  next
    case True
    have d9: "?d \<le> 9"
      using True by (auto simp: is_digit_or_star_def digit_char_image)
    have dval: "(if c = CHR ''*'' then 0 else char_val c - char_val CHR ''0'') = int ?d"
      using True by (auto simp: is_digit_or_star_def digit_char_image digit_value)
    have "(mm + 1) * 10 * 10 ^ length cs \<le> 2 ^ 32"
      using Cons.prems by (simp add: algebra_simps)
    moreover have "mm * 10 + ?d + 1 \<le> (mm + 1) * 10" using d9 by simp
    ultimately have bnd: "(mm * 10 + ?d + 1) * 10 ^ length cs \<le> 2 ^ 32"
      by (meson le_trans mult_le_mono1)
    have "1 * (mm * 10 + ?d + 1) \<le> 10 ^ length cs * (mm * 10 + ?d + 1)"
      by (rule mult_le_mono1) simp
    with bnd have small: "mm * 10 + ?d < 2 ^ 32" by (simp add: mult.commute)
    then have m10: "mm * 10 < 2 ^ 32" by simp
    have nb: "\<not> (c \<noteq> CHR ''*'' \<and> (char_val c < char_val CHR ''0'' \<or> char_val c > char_val CHR ''9''))"
      using True is_digit_or_star_code [of c] by blast
    have "to_unsigned (int ((mm * 10) mod 2 ^ 32) + int ?d) = mm * 10 + ?d"
    proof -
      have "int ((mm * 10) mod 2 ^ 32) + int ?d = int (mm * 10 + ?d)"
        using m10 by simp
      moreover have "int (mm * 10 + ?d) mod 2 ^ 32 = int (mm * 10 + ?d)"
        using small by (simp add: zmod_int [symmetric] del: of_nat_add of_nat_mult)
      ultimately show ?thesis by (simp add: to_unsigned_def del: of_nat_add of_nat_mult)
    qed
    then have step: "nibble_valid_loop (c # cs) mx mm = nibble_valid_loop cs mx (mm * 10 + ?d)"
      by (simp only: nibble_valid_loop.simps nb if_False dval)
    have "(mm * 10 + ?d + 1) * 10 ^ length cs \<le> 2 ^ 32" by (rule bnd)
    from Cons.IH [OF this] step True show ?thesis
      by (simp add: mult.commute)
  qed
qed

lemma IsValidSaveScheduleNibble_short:
  "length t \<le> 9 \<Longrightarrow>
   IsValidSaveScheduleNibble t mx \<longleftrightarrow> list_all is_digit_or_star t \<and> min_substitution t \<le> mx"
proof -
  assume "length t \<le> 9"
  then have "(10::nat) ^ length t \<le> 10 ^ 9" by (intro power_increasing) simp_all
  then have "(0 + 1) * (10::nat) ^ length t \<le> 2 ^ 32" by simp
  from nibble_valid_loop_eq [OF this] show ?thesis
    by (simp add: IsValidSaveScheduleNibble_def min_substitution_def)
qed

lemma find_from_eq:
  "find_from ch s i = (if ch \<in> set s then i + length (takeWhile (\<lambda>c. c \<noteq> ch) s) else npos)"
  by (induction s arbitrary: i) auto

lemma npos_large: "3 \<le> npos"
  by (simp add: npos_def)

lemma sv_find_append:
  "ch \<notin> set hh \<Longrightarrow> sv_find (hh @ ch # mm) ch = length hh"
proof -
  assume n: "ch \<notin> set hh"
  then have "takeWhile (\<lambda>c. c \<noteq> ch) (hh @ ch # mm) = hh"
    by (induction hh) auto
  then show ?thesis by (simp add: sv_find_def find_from_eq)
qed

lemma sv_find_split:
  assumes "sv_find s ch < 3"
  shows "s = take (sv_find s ch) s @ ch # drop (sv_find s ch + 1) s"
proof -
  let ?p = "takeWhile (\<lambda>c. c \<noteq> ch) s"
  have mem: "ch \<in> set s"
    using assms npos_large by (auto simp: sv_find_def find_from_eq split: if_splits)
  then have idx: "sv_find s ch = length ?p"
    by (simp add: sv_find_def find_from_eq)
  have "dropWhile (\<lambda>c. c \<noteq> ch) s \<noteq> []" using mem by auto
  then obtain r where r: "dropWhile (\<lambda>c. c \<noteq> ch) s = ch # r"
    by (metis (mono_tags, lifting) hd_dropWhile list.collapse)
  have s: "s = ?p @ ch # r" using r by (metis takeWhile_dropWhile_id)
  have "take (length ?p) s = ?p" by (subst (2) s) simp
  moreover have "drop (length ?p + 1) s = r" by (subst s) simp
  ultimately show ?thesis using s idx by simp
qed

lemma colon_not_digit_or_star: "\<not> is_digit_or_star CHR '':''"
  by (simp add: is_digit_or_star_def digit_char_image)

lemma schedule_form_parses:
  assumes "schedule_form s hh mm"
  shows "ParseSaveSchedule s = Some \<lparr>hour_spec = hh, minute_spec = mm\<rparr>"
proof -
  from assms have s: "s = hh @ CHR '':'' # mm"
    and lh: "length hh = 1 \<or> length hh = 2"
    and lm: "length mm = 2 \<or> mm = ''*''"
    and ch: "list_all is_digit_or_star hh" and cm: "list_all is_digit_or_star mm"
    and vh: "min_substitution hh \<le> 23" and vm: "min_substitution mm \<le> 59"
    by (simp_all add: schedule_form_def)
  have "CHR '':'' \<notin> set hh"
    using ch colon_not_digit_or_star by (auto simp: list_all_iff)
  then have idx: "sv_find s CHR '':'' = length hh"
    unfolding s by (rule sv_find_append)
  have len: "\<not> (length s < 3 \<or> length s > 5)"
    using lh lm by (auto simp: s)
  have tk: "take (length hh) s = hh" and dr: "drop (length hh + 1) s = mm"
    by (simp_all add: s)
  have "length hh \<le> 9" "length mm \<le> 9" using lh lm by auto
  then have "IsValidSaveScheduleNibble hh 23" "IsValidSaveScheduleNibble mm 59"
    using ch cm vh vm by (simp_all add: IsValidSaveScheduleNibble_short)
  then show ?thesis
    unfolding ParseSaveSchedule_def Let_def idx tk dr
    using len lh lm by auto
qed

lemma parses_schedule_form:
  assumes "ParseSaveSchedule s = Some spec"
  shows "schedule_form s (hour_spec spec) (minute_spec spec)"
proof -
  let ?i = "sv_find s CHR '':''"
  let ?hh = "take ?i s" and ?mm = "drop (?i + 1) s"
  from assms have len: "3 \<le> length s" "length s \<le> 5"
    and i: "?i \<noteq> 0" "?i < 3"
    and lm: "length ?mm = 2 \<or> ?mm = ''*''"
    and v: "IsValidSaveScheduleNibble ?hh 23" "IsValidSaveScheduleNibble ?mm 59"
    and spec: "spec = \<lparr>hour_spec = ?hh, minute_spec = ?mm\<rparr>"
    by (auto simp: ParseSaveSchedule_def Let_def split: if_splits)
  have s: "s = ?hh @ CHR '':'' # ?mm" using i(2) by (rule sv_find_split)
  have lh: "length ?hh = 1 \<or> length ?hh = 2" using i len by auto
  have "length ?hh \<le> 9" "length ?mm \<le> 9" using len by auto
  with v have "list_all is_digit_or_star ?hh" "min_substitution ?hh \<le> 23"
     "list_all is_digit_or_star ?mm" "min_substitution ?mm \<le> 59"
    by (simp_all add: IsValidSaveScheduleNibble_short)
  with s lh lm show ?thesis
    unfolding schedule_form_def spec by simp
qed

text \<open>
  Claim C1. \<open>ParseSaveSchedule s\<close> returns \<open>Some spec\<close> exactly when \<open>s\<close> is \<open>HH:MM\<close> with
  \<open>HH = hour_spec spec\<close> of length 1 or 2, \<open>MM = minute_spec spec\<close> of length 2 or the
  single character \<open>*\<close>, every character of both parts a decimal digit or \<open>*\<close>, and the
  reading with 0 for every \<open>*\<close> at most 23 for the hour and at most 59 for the minute;
  it returns \<open>None\<close> exactly when \<open>s\<close> has no such form.
\<close>

theorem ParseSaveSchedule_iff_schedule_form:
  "(ParseSaveSchedule s = Some spec
      \<longleftrightarrow> schedule_form s (hour_spec spec) (minute_spec spec))
   \<and> (ParseSaveSchedule s = None \<longleftrightarrow> \<not> (\<exists>hh mm. schedule_form s hh mm))"
proof (intro conjI iffI)
  assume "ParseSaveSchedule s = Some spec"
  then show "schedule_form s (hour_spec spec) (minute_spec spec)"
    by (rule parses_schedule_form)
next
  assume "schedule_form s (hour_spec spec) (minute_spec spec)"
  then have "ParseSaveSchedule s = Some \<lparr>hour_spec = hour_spec spec, minute_spec = minute_spec spec\<rparr>"
    by (rule schedule_form_parses)
  then show "ParseSaveSchedule s = Some spec" by simp
next
  assume n: "ParseSaveSchedule s = None"
  show "\<not> (\<exists>hh mm. schedule_form s hh mm)"
  proof
    assume "\<exists>hh mm. schedule_form s hh mm"
    then obtain hh mm where "schedule_form s hh mm" by blast
    from schedule_form_parses [OF this] n show False by simp
  qed
next
  assume n: "\<not> (\<exists>hh mm. schedule_form s hh mm)"
  show "ParseSaveSchedule s = None"
  proof (cases "ParseSaveSchedule s")
    case None
    then show ?thesis .
  next
    case (Some spec')
    from parses_schedule_form [OF this] n show ?thesis by blast
  qed
qed

theorem ParseSaveSchedule_iff_schedule_form_witness:
  "ParseSaveSchedule ''2*:*5'' = Some \<lparr>hour_spec = ''2*'', minute_spec = ''*5''\<rparr>
   \<and> schedule_form ''2*:*5'' ''2*'' ''*5''
   \<and> ParseSaveSchedule ''24:00'' = None
   \<and> \<not> (\<exists>hh mm. schedule_form ''24:00'' hh mm)"
proof -
  have f: "schedule_form ''2*:*5'' ''2*'' ''*5''"
    by (simp add: schedule_form_def is_digit_or_star_def digit_char_image min_substitution_def)
  have n: "ParseSaveSchedule ''24:00'' = None"
    by (simp add: ParseSaveSchedule_def sv_find_def IsValidSaveScheduleNibble_def
        to_unsigned_def char_val_def)
  from f n
    ParseSaveSchedule_iff_schedule_form [of "''2*:*5''" "\<lparr>hour_spec = ''2*'', minute_spec = ''*5''\<rparr>"]
    ParseSaveSchedule_iff_schedule_form [of "''24:00''"]
  show ?thesis by simp
qed

section \<open>Properties of the time matcher\<close>

lemma sdiv_nonneg: "0 \<le> (a::int) \<Longrightarrow> 0 < b \<Longrightarrow> a sdiv b = a div b"
  by (simp add: signed_divide_int_def sgn_if)

lemma smod_nonneg: "0 \<le> (a::int) \<Longrightarrow> 0 < b \<Longrightarrow> a smod b = a mod b"
  by (simp add: signed_modulo_int_def sgn_if)

lemma hour_of_nonneg:
  assumes "0 \<le> (t::int)"
  shows "to_unsigned ((t sdiv 3600) smod 24) = nat ((t div 3600) mod 24)"
proof -
  have d: "0 \<le> t div 3600" using assms by (simp add: pos_imp_zdiv_nonneg_iff)
  have "(t sdiv 3600) smod 24 = (t div 3600) mod 24"
    using assms d by (simp add: sdiv_nonneg smod_nonneg)
  moreover have "0 \<le> (t div 3600) mod 24" "(t div 3600) mod 24 < 24" by simp_all
  ultimately show ?thesis by (simp add: to_unsigned_def)
qed

lemma minute_of_nonneg:
  assumes "0 \<le> (t::int)"
  shows "to_unsigned ((t sdiv 60) smod 60) = nat ((t div 60) mod 60)"
proof -
  have d: "0 \<le> t div 60" using assms by (simp add: pos_imp_zdiv_nonneg_iff)
  have "(t sdiv 60) smod 60 = (t div 60) mod 60"
    using assms d by (simp add: sdiv_nonneg smod_nonneg)
  moreover have "0 \<le> (t div 60) mod 60" "(t div 60) mod 60 < 60" by simp_all
  ultimately show ?thesis by (simp add: to_unsigned_def)
qed

lemma char_eq_via_nat: "c = d \<longleftrightarrow> (of_char c :: nat) = of_char d"
  by simp

lemma digit_char_eq:
  assumes "d \<le> 9"
  shows "int d = char_val c - char_val CHR ''0'' \<longleftrightarrow> c = digit_char d"
proof
  assume a: "int d = char_val c - char_val CHR ''0''"
  then have cv: "char_val c = 48 + int d" by (simp add: char_val_zero)
  have b: "(of_char c :: nat) < 256" by (rule of_char_bound)
  have "(of_char c :: nat) = 48 + d"
  proof (cases "(of_char c :: nat) < 128")
    case True
    then have "char_val c = int (of_char c :: nat)" by (simp only: char_val_alt if_True)
    with cv show ?thesis by linarith
  next
    case False
    then have "char_val c = int (of_char c :: nat) - 256" by (simp only: char_val_alt if_False)
    with cv b show ?thesis by linarith
  qed
  then have "char_of (of_char c :: nat) = (char_of (48 + d) :: char)" by simp
  then show "c = digit_char d" by (simp add: digit_char_def)
next
  assume "c = digit_char d"
  then have e: "(of_char c :: nat) = 48 + d" using assms by (simp add: digit_char_def)
  then have "(of_char c :: nat) < 128" using assms by simp
  then have "char_val c = int (of_char c :: nat)" by (simp only: char_val_alt if_True)
  with e show "int d = char_val c - char_val CHR ''0''"
    by (simp add: char_val_zero)
qed

lemma all_less_Suc_split: "(\<forall>i<Suc k. P i) \<longleftrightarrow> P 0 \<and> (\<forall>i<k. P (Suc i))"
  by (auto simp: less_Suc_eq_0_disj)

lemma nibble_match_loop_eq:
  "nibble_match_loop ts k n \<longleftrightarrow>
     (\<forall>i<k. ts ! (k - Suc i) = CHR ''*'' \<or> ts ! (k - Suc i) = digit_char ((n div 10 ^ i) mod 10))
     \<and> n div 10 ^ k = 0"
proof (induction k arbitrary: n)
  case 0
  then show ?case by simp
next
  case (Suc k)
  let ?Q = "\<lambda>i. ts ! (Suc k - Suc i) = CHR ''*''
              \<or> ts ! (Suc k - Suc i) = digit_char ((n div 10 ^ i) mod 10)"
  have d: "n mod 10 \<le> 9" by simp
  have hd: "\<not> (ts ! k \<noteq> CHR ''*'' \<and> int (n mod 10) \<noteq> char_val (ts ! k) - char_val CHR ''0'')
      \<longleftrightarrow> ts ! k = CHR ''*'' \<or> ts ! k = digit_char (n mod 10)"
    using digit_char_eq [OF d, of "ts ! k"] by blast
  have step: "nibble_match_loop ts (Suc k) n \<longleftrightarrow>
      (ts ! k = CHR ''*'' \<or> ts ! k = digit_char (n mod 10)) \<and> nibble_match_loop ts k (n div 10)"
    unfolding hd [symmetric] by (subst nibble_match_loop.simps) (simp only: if_bool_eq_conj, blast)
  have dd: "n div 10 div 10 ^ i = n div 10 ^ Suc i" for i
    by (simp add: div_mult2_eq)
  have q0: "?Q 0 \<longleftrightarrow> ts ! k = CHR ''*'' \<or> ts ! k = digit_char (n mod 10)" by simp
  have qs: "?Q (Suc i) \<longleftrightarrow> ts ! (k - Suc i) = CHR ''*''
              \<or> ts ! (k - Suc i) = digit_char ((n div 10 div 10 ^ i) mod 10)" for i
    by (simp only: dd diff_Suc_Suc)
  have "(\<forall>i<Suc k. ?Q i) \<longleftrightarrow> ?Q 0 \<and> (\<forall>i<k. ?Q (Suc i))"
    by (rule all_less_Suc_split)
  then have all: "(\<forall>i<Suc k. ?Q i) \<longleftrightarrow>
      (ts ! k = CHR ''*'' \<or> ts ! k = digit_char (n mod 10))
      \<and> (\<forall>i<k. ts ! (k - Suc i) = CHR ''*''
              \<or> ts ! (k - Suc i) = digit_char ((n div 10 div 10 ^ i) mod 10))"
    by (simp only: q0 qs)
  have z: "n div 10 div 10 ^ k = 0 \<longleftrightarrow> n div 10 ^ Suc k = 0" by (simp only: dd)
  show ?case
    by (simp only: step Suc.IH all z) blast
qed

lemma DoesTimeNibbleMatchSpecifier_eq:
  "DoesTimeNibbleMatchSpecifier ts n \<longleftrightarrow> pattern_matches ts n"
proof -
  have "(\<forall>i<length ts. ts ! (length ts - Suc i) = CHR ''*''
            \<or> ts ! (length ts - Suc i) = digit_char ((n div 10 ^ i) mod 10))
        \<longleftrightarrow> digits_agree ts n"
    by (auto simp: digits_agree_def list_all_iff rev_nth)
  moreover have "n div 10 ^ length ts = 0 \<longleftrightarrow> n < 10 ^ length ts"
    by (simp add: div_eq_0_iff)
  ultimately show ?thesis
    by (simp only: DoesTimeNibbleMatchSpecifier_def pattern_matches_def nibble_match_loop_eq)
       simp
qed

text \<open>
  Claim C2, as amended. For a unix time \<open>t \<ge> 0\<close>, \<open>DoesTimeMatchSpecifier spec t\<close> holds
  exactly when each of \<open>hour_spec\<close> (against \<open>(t div 3600) mod 24\<close>) and \<open>minute_spec\<close>
  (against \<open>(t div 60) mod 60\<close>) either is the single character \<open>*\<close>, or agrees with the
  right-aligned decimal digits of the value in every position that is not \<open>*\<close> while the
  value has no more digits than the pattern has characters.
\<close>

theorem DoesTimeMatchSpecifier_iff_pattern_matches:
  "0 \<le> t \<Longrightarrow>
   DoesTimeMatchSpecifier spec t \<longleftrightarrow>
     pattern_matches (hour_spec spec) (nat ((t div 3600) mod 24))
     \<and> pattern_matches (minute_spec spec) (nat ((t div 60) mod 60))"
  by (simp add: DoesTimeMatchSpecifier_def Let_def hour_of_nonneg minute_of_nonneg
      DoesTimeNibbleMatchSpecifier_eq)

theorem DoesTimeMatchSpecifier_iff_pattern_matches_witness:
  "(0::int) \<le> 5400
   \<and> DoesTimeMatchSpecifier \<lparr>hour_spec = ''1'', minute_spec = ''30''\<rparr> 5400
   \<and> pattern_matches ''1'' 1 \<and> pattern_matches ''30'' 30"
proof -
  have h: "(0::int) \<le> 5400" by simp
  have "pattern_matches ''1'' 1" "pattern_matches ''30'' 30"
    by (simp_all add: pattern_matches_def digits_agree_def digit_char_def char_eq_via_nat)
  with DoesTimeMatchSpecifier_iff_pattern_matches
         [OF h, of "\<lparr>hour_spec = ''1'', minute_spec = ''30''\<rparr>"]
  show ?thesis by simp
qed

text \<open>
  The claim as stated asks only for the agreement of the digit positions. The pattern
  \<open>1:30\<close> at 11:30 (\<open>t = 41400\<close>) agrees in every position, yet the code does not match:
  after the loop it requires the remaining digits of the hour to be zero.
\<close>

theorem DoesTimeMatchSpecifier_digits_agree_counterexample:
  "\<not> (DoesTimeMatchSpecifier \<lparr>hour_spec = ''1'', minute_spec = ''30''\<rparr> 41400
        \<longleftrightarrow> digits_agree ''1'' (nat ((41400 div 3600) mod 24))
            \<and> digits_agree ''30'' (nat ((41400 div 60) mod 60)))"
proof -
  have "\<not> DoesTimeMatchSpecifier \<lparr>hour_spec = ''1'', minute_spec = ''30''\<rparr> 41400"
    by (simp add: DoesTimeMatchSpecifier_def Let_def to_unsigned_def signed_modulo_int_def
        signed_divide_int_def DoesTimeNibbleMatchSpecifier_def char_val_def)
  moreover have "digits_agree ''1'' (nat ((41400 div 3600) mod 24))"
    by (simp add: digits_agree_def digit_char_def char_eq_via_nat)
  moreover have "digits_agree ''30'' (nat ((41400 div 60) mod 60))"
    by (simp add: digits_agree_def digit_char_def char_eq_via_nat)
  ultimately show ?thesis by simp
qed



section \<open>Properties of the snapshot file names\<close>

lemma of_char_digit_char: "d \<le> 9 \<Longrightarrow> (of_char (digit_char d) :: nat) = 48 + d"
  by (simp add: digit_char_def)

lemma foldl_dec_zero:
  "foldl (\<lambda>acc c. 10 * acc + (of_char c - 48)) (0::nat) (replicate k CHR ''0'') = 0"
  by (induction k) simp_all

lemma dec_value_snoc: "dec_value (s @ [c]) = 10 * dec_value s + (of_char c - 48)"
  by (simp add: dec_value_def)

lemma dec_value_dec_string: "dec_value (dec_string n) = n"
proof (induction n rule: dec_string.induct)
  case (1 n)
  show ?case
  proof (cases "n < 10")
    case True
    then show ?thesis
      by (subst dec_string.simps) (simp add: dec_value_def of_char_digit_char)
  next
    case False
    have "n mod 10 \<le> 9" by simp
    then have "(of_char (digit_char (n mod 10)) :: nat) - 48 = n mod 10"
      by (simp add: of_char_digit_char)
    with False 1 show ?thesis
      by (subst dec_string.simps) (simp add: dec_value_snoc)
  qed
qed

lemma dec_string_digits: "list_all (\<lambda>c. c \<in> digit_char ` {0..9}) (dec_string n)"
proof (induction n rule: dec_string.induct)
  case (1 n)
  show ?case
  proof (cases "n < 10")
    case True
    then show ?thesis by (subst dec_string.simps) simp
  next
    case False
    have "n mod 10 \<in> {0..9}" by simp
    then have "digit_char (n mod 10) \<in> digit_char ` {0..9}" by (rule imageI)
    with False 1 show ?thesis by (subst dec_string.simps) simp
  qed
qed

lemma dec_string_length: "n < 10 ^ k \<Longrightarrow> 0 < k \<Longrightarrow> length (dec_string n) \<le> k"
proof (induction n arbitrary: k rule: dec_string.induct)
  case (1 n)
  show ?case
  proof (cases "n < 10")
    case True
    with 1 show ?thesis by (subst dec_string.simps) simp
  next
    case False
    with "1.prems" obtain j where k: "k = Suc j" by (cases k) auto
    from False "1.prems" k have j: "0 < j" by (cases j) auto
    from "1.prems" k have "n div 10 < 10 ^ j"
      by (simp add: less_mult_imp_div_less mult.commute)
    from "1.IH" [OF False this j] False k show ?thesis
      by (subst dec_string.simps) simp
  qed
qed

lemma Dec_kZeroPad4_props:
  "4 \<le> length (Dec_kZeroPad4 v)"
  "v < 10000 \<Longrightarrow> length (Dec_kZeroPad4 v) = 4"
  "dec_value (Dec_kZeroPad4 v) = v"
  "list_all (\<lambda>c. c \<in> digit_char ` {0..9}) (Dec_kZeroPad4 v)"
proof -
  show "4 \<le> length (Dec_kZeroPad4 v)" by (simp add: Dec_kZeroPad4_def)
  show "dec_value (Dec_kZeroPad4 v) = v"
    using dec_value_dec_string [of v]
    by (simp add: Dec_kZeroPad4_def dec_value_def foldl_dec_zero)
  have z: "CHR ''0'' \<in> digit_char ` {0..9}"
    by (simp add: digit_char_image)
  show "list_all (\<lambda>c. c \<in> digit_char ` {0..9}) (Dec_kZeroPad4 v)"
    using dec_string_digits [of v] z by (auto simp: Dec_kZeroPad4_def list_all_iff)
  show "length (Dec_kZeroPad4 v) = 4" if "v < 10000"
  proof -
    from that have "v < 10 ^ 4" by simp
    then have "length (dec_string v) \<le> 4" by (rule dec_string_length) simp
    then show ?thesis by (simp add: Dec_kZeroPad4_def)
  qed
qed

lemma path_filename_suffix: "\<exists>d. p = d @ path_filename p"
proof -
  let ?P = "\<lambda>c. c \<noteq> CHR ''/''"
  have "rev (takeWhile ?P (rev p) @ dropWhile ?P (rev p)) = p"
    by (simp only: takeWhile_dropWhile_id rev_rev_ident)
  then have "p = rev (dropWhile ?P (rev p)) @ path_filename p"
    by (simp only: rev_append path_filename_def)
  then show ?thesis ..
qed

lemma after_dot_suffix:
  assumes "CHR ''.'' \<in> set f"
  shows "\<exists>d. f = d @ CHR ''.'' # rev (takeWhile (\<lambda>c. c \<noteq> CHR ''.'') (rev f))"
proof -
  let ?P = "\<lambda>c. c \<noteq> CHR ''.''"
  let ?t = "takeWhile ?P (rev f)" and ?d = "dropWhile ?P (rev f)"
  from assms have ne: "?d \<noteq> []" by auto
  then obtain x r where xr: "?d = x # r" by (cases ?d) auto
  from ne have "\<not> ?P (hd ?d)" by (rule hd_dropWhile)
  with xr have "x = CHR ''.''" by simp
  with xr have r: "?d = CHR ''.'' # r" by simp
  have "rev (?t @ ?d) = f"
    by (simp only: takeWhile_dropWhile_id rev_rev_ident)
  then have "f = rev r @ CHR ''.'' # rev ?t"
    by (simp only: r rev_append rev.simps append_assoc append_Cons append_Nil)
  then show ?thesis ..
qed

lemma path_extension_cases:
  "path_extension p = []
   \<or> (CHR ''.'' \<in> set (path_filename p)
      \<and> path_extension p
          = CHR ''.'' # rev (takeWhile (\<lambda>c. c \<noteq> CHR ''.'') (rev (path_filename p))))"
proof (cases "path_filename p = ''.'' \<or> path_filename p = ''..'' \<or> CHR ''.'' \<notin> set (path_filename p)")
  case True
  then have "path_extension p = []"
    unfolding path_extension_def Let_def by (simp only: if_True)
  then show ?thesis ..
next
  case False
  then have dot: "CHR ''.'' \<in> set (path_filename p)" by blast
  from False have "path_extension p =
      (if Suc (length (rev (takeWhile (\<lambda>c. c \<noteq> CHR ''.'') (rev (path_filename p)))))
            = length (path_filename p) then []
       else CHR ''.'' # rev (takeWhile (\<lambda>c. c \<noteq> CHR ''.'') (rev (path_filename p))))"
    unfolding path_extension_def Let_def by (simp only: if_False)
  with dot show ?thesis by (metis (full_types))
qed

lemma path_extension_suffix: "\<exists>d. p = d @ path_extension p"
proof -
  obtain d1 where d1: "p = d1 @ path_filename p" using path_filename_suffix by blast
  from path_extension_cases [of p] show ?thesis
  proof
    assume "path_extension p = []"
    then show ?thesis by simp
  next
    assume a: "CHR ''.'' \<in> set (path_filename p)
      \<and> path_extension p
          = CHR ''.'' # rev (takeWhile (\<lambda>c. c \<noteq> CHR ''.'') (rev (path_filename p)))"
    then have dot: "CHR ''.'' \<in> set (path_filename p)" ..
    from after_dot_suffix [OF dot] obtain d2 where
      "path_filename p = d2 @ CHR ''.'' # rev (takeWhile (\<lambda>c. c \<noteq> CHR ''.'') (rev (path_filename p)))"
      ..
    with a have "path_filename p = d2 @ path_extension p" by simp
    then have "d1 @ path_filename p = d1 @ d2 @ path_extension p" by simp
    with d1 have "p = (d1 @ d2) @ path_extension p" by simp
    then show ?thesis ..
  qed
qed

lemma take_prefix_of_append: "p = d @ e \<Longrightarrow> take (length p - length e) p = d"
  by simp

lemma replace_extension_append: "replace_extension p @ path_extension p = p"
proof -
  obtain d where d: "p = d @ path_extension p" using path_extension_suffix by blast
  then have "take (length p - length (path_extension p)) p = d"
    by (rule take_prefix_of_append)
  then have "replace_extension p = d" by (simp only: replace_extension_def)
  with d show ?thesis by simp
qed

text \<open>
  Claim C5. In legacy mode (\<open>shard < 0\<close>) \<open>ExtendFilename\<close> appends \<open>-<timestamp>.rdb\<close>
  exactly when the file name has no extension and leaves it unchanged otherwise. In
  native mode (\<open>shard \<ge> 0\<close>) it removes the extension, if there is one, and appends
  \<open>-<timestamp>-<shard id>.dfs\<close>, the shard id in decimal digits padded with zeros on
  the left to a width of 4 (exactly 4 digits below 10000), for every shard id. The
  timestamp is what \<open>FormatTs\<close> prints.
\<close>

theorem ExtendFilename_names:
  "(shard < 0 \<and> \<not> has_extension filename \<longrightarrow>
      ExtendFilename fmt now shard filename = filename @ ''-'' @ fmt now @ ''.rdb'')
   \<and> (shard < 0 \<and> has_extension filename \<longrightarrow>
      ExtendFilename fmt now shard filename = filename)
   \<and> (0 \<le> shard \<longrightarrow>
      ExtendFilename fmt now shard filename
        = replace_extension filename @ ''-'' @ fmt now @ ''-'' @ Dec_kZeroPad4 (nat shard) @ ''.dfs''
      \<and> replace_extension filename @ path_extension filename = filename
      \<and> 4 \<le> length (Dec_kZeroPad4 (nat shard))
      \<and> (shard < 10000 \<longrightarrow> length (Dec_kZeroPad4 (nat shard)) = 4)
      \<and> list_all (\<lambda>c. c \<in> digit_char ` {0..9}) (Dec_kZeroPad4 (nat shard))
      \<and> int (dec_value (Dec_kZeroPad4 (nat shard))) = shard)"
proof (intro conjI impI)
  assume "shard < 0 \<and> \<not> has_extension filename"
  then show "ExtendFilename fmt now shard filename = filename @ ''-'' @ fmt now @ ''.rdb''"
    by (simp add: ExtendFilename_def)
next
  assume "shard < 0 \<and> has_extension filename"
  then show "ExtendFilename fmt now shard filename = filename"
    by (simp add: ExtendFilename_def)
next
  assume "0 \<le> shard"
  then show "ExtendFilename fmt now shard filename
        = replace_extension filename @ ''-'' @ fmt now @ ''-'' @ Dec_kZeroPad4 (nat shard) @ ''.dfs''"
    by (simp add: ExtendFilename_def)
next
  show "replace_extension filename @ path_extension filename = filename"
    by (rule replace_extension_append)
next
  show "4 \<le> length (Dec_kZeroPad4 (nat shard))"
    by (rule Dec_kZeroPad4_props)
next
  assume "0 \<le> shard" "shard < 10000"
  then have "nat shard < 10000" by simp
  then show "length (Dec_kZeroPad4 (nat shard)) = 4" by (rule Dec_kZeroPad4_props)
next
  show "list_all (\<lambda>c. c \<in> digit_char ` {0..9}) (Dec_kZeroPad4 (nat shard))"
    by (rule Dec_kZeroPad4_props)
next
  assume "0 \<le> shard"
  then show "int (dec_value (Dec_kZeroPad4 (nat shard))) = shard"
    by (simp add: Dec_kZeroPad4_props(3))
qed

theorem ExtendFilename_names_witness:
  "ExtendFilename (\<lambda>t. ''2022-10-01T12:30:00'') 0 (- 1) ''dump'' = ''dump-2022-10-01T12:30:00.rdb''
   \<and> ExtendFilename (\<lambda>t. ''2022-10-01T12:30:00'') 0 (- 1) ''dump.rdb'' = ''dump.rdb''
   \<and> ExtendFilename (\<lambda>t. ''2022-10-01T12:30:00'') 0 3 ''dump.rdb''
       = ''dump-2022-10-01T12:30:00-0003.dfs''"
proof -
  have e1: "path_extension ''dump'' = []"
    by (simp add: path_extension_def path_filename_def)
  have e2: "path_extension ''dump.rdb'' = ''.rdb''"
    by (simp add: path_extension_def path_filename_def)
  have e: "\<not> has_extension ''dump''" "has_extension ''dump.rdb''"
    "replace_extension ''dump.rdb'' = ''dump''"
    by (simp_all add: has_extension_def replace_extension_def e1 e2)
  have "dec_string 3 = ''3''"
    by (simp add: dec_string.simps digit_char_def char_eq_via_nat)
  then have "Dec_kZeroPad4 (nat 3) = replicate 3 CHR ''0'' @ ''3''"
    by (simp add: Dec_kZeroPad4_def)
  then have d: "Dec_kZeroPad4 (nat 3) = ''0003''"
    by (simp add: numeral_3_eq_3)
  let ?fmt = "\<lambda>t::int. ''2022-10-01T12:30:00''"
  have a: "ExtendFilename ?fmt 0 (- 1) ''dump'' = ''dump'' @ ''-'' @ ?fmt 0 @ ''.rdb''"
    using ExtendFilename_names [of "- 1" "''dump''" ?fmt 0, THEN conjunct1] e(1) by simp
  have b: "ExtendFilename ?fmt 0 (- 1) ''dump.rdb'' = ''dump.rdb''"
    using ExtendFilename_names [of "- 1" "''dump.rdb''" ?fmt 0, THEN conjunct2, THEN conjunct1] e(2)
    by simp
  have c: "ExtendFilename ?fmt 0 3 ''dump.rdb''
      = replace_extension ''dump.rdb'' @ ''-'' @ ?fmt 0 @ ''-'' @ Dec_kZeroPad4 (nat 3) @ ''.dfs''"
    by (rule ExtendFilename_names [of 3 "''dump.rdb''" ?fmt 0,
          THEN conjunct2, THEN conjunct2, THEN mp, THEN conjunct1]) simp
  have d': "Dec_kZeroPad4 3 = ''0003''" using d by simp
  from a b c show ?thesis by (simp add: e(3) d')
qed

section \<open>Properties of \<open>ReplConf\<close>\<close>

text \<open>
  Claim C7. A \<open>REPLCONF\<close> whose argument vector, command name included, has even size
  (an odd number of tokens after the name) is answered with \<open>SendError(kSyntaxErr)\<close>,
  the line \<open>-ERR syntax error\<close>, and nothing else happens: the arguments, the master
  (no session is allocated) and the connection are unchanged.
\<close>

theorem ReplConf_even_size_syntax_error:
  "length args mod 2 = 0 \<Longrightarrow>
   ReplConf args m c = ([SendError kSyntaxErr], args, m, c)
   \<and> error_line kSyntaxErr = ''-ERR syntax error''"
  by (simp add: ReplConf_def kSyntaxErr_def error_line_def)

theorem ReplConf_even_size_syntax_error_witness:
  "length [''REPLCONF'', ''capa''] mod 2 = 0
   \<and> ReplConf [''REPLCONF'', ''capa'']
        \<lparr>master_id = replicate 40 CHR ''a'', pool_size = 4, sync_sessions = [], next_sync_id = 7\<rparr>
        \<lparr>conn_name = [], repl_session_id = 0\<rparr>
      = ([SendError kSyntaxErr], [''REPLCONF'', ''capa''],
         \<lparr>master_id = replicate 40 CHR ''a'', pool_size = 4, sync_sessions = [], next_sync_id = 7\<rparr>,
         \<lparr>conn_name = [], repl_session_id = 0\<rparr>)
   \<and> error_line kSyntaxErr = ''-ERR syntax error''"
proof -
  have h: "length [''REPLCONF'', ''capa''] mod 2 = 0" by simp
  from ReplConf_even_size_syntax_error [OF h] h show ?thesis by simp
qed

lemma ReplConf_loop_no_capa:
  "i \<noteq> 1 \<or> length args \<noteq> 3 \<or> ToUpper (args ! 1) \<noteq> ''CAPA'' \<or> args ! 2 \<noteq> ''dragonfly'' \<Longrightarrow>
   \<exists>args'. ReplConf_loop i args m c = ([SendOk], args', m, c)"
proof (induction i args m c rule: ReplConf_loop.induct)
  case (1 i args m c)
  show ?case
  proof (cases "i < length args")
    case False
    then show ?thesis by (subst ReplConf_loop.simps) simp
  next
    case True
    let ?args1 = "args[i := ToUpper (args ! i)]"
    have nc: "\<not> (?args1 ! i = ''CAPA'' \<and> ?args1 ! (i + 1) = ''dragonfly''
                \<and> length ?args1 = 3 \<and> i = 1)"
      using "1.prems" True by (auto simp: numeral_2_eq_2)
    have "\<exists>args'. ReplConf_loop (i + 2) ?args1 m c = ([SendOk], args', m, c)"
      by (rule "1.IH" [OF True refl refl refl nc]) simp
    then obtain args' where r: "ReplConf_loop (i + 2) ?args1 m c = ([SendOk], args', m, c)" ..
    have "ReplConf_loop i args m c = ([SendOk], args', m, c)"
      by (subst ReplConf_loop.simps) (simp only: Let_def True nc if_True if_False r)
    then show ?thesis ..
  qed
qed

lemma ToUpper_capa: "ToUpper ''capa'' = ''CAPA''"
  by (simp add: ToUpper_def ascii_toupper_def char_eq_via_nat)

lemma ReplConf_loop_capa:
  assumes "length args = 3" and "ToUpper (args ! 1) = ''CAPA''" and "args ! 2 = ''dragonfly''"
  shows "ReplConf_loop 1 args m c =
              ([StartArray 3, SendSimpleString (master_id m),
                SendSimpleString (''SYNC'' @ dec_string (next_sync_id m)),
                SendLong (int (pool_size m))],
               args[1 := ''CAPA''],
               m\<lparr>sync_sessions := sync_sessions m @ [next_sync_id m],
                  next_sync_id := Suc (next_sync_id m)\<rparr>,
               c\<lparr>conn_name := ''repl_ctrl_'' @ dec_string (next_sync_id m),
                  repl_session_id := next_sync_id m\<rparr>)"
proof -
  have two: "args ! Suc (Suc 0) = ''dragonfly''" using assms(3) by (simp add: numeral_2_eq_2)
  have one: "ToUpper (args ! Suc 0) = ''CAPA''" using assms(2) by simp
  show ?thesis
    apply (subst ReplConf_loop.simps)
    apply (simp add: Let_def AllocateSyncSession_def assms(1) one two)
    done
qed

text \<open>
  Claim C8. For an argument vector of odd size, with \<open>master_id_\<close> of its
  \<open>CONFIG_RUN_ID_SIZE = 40\<close> characters: \<open>ReplConf\<close> sends the 3-element reply
  \<open>[master_id, "SYNC<session id>", number of pool threads]\<close> and allocates a sync
  session exactly when the vector has size 3, its key \<open>args[1]\<close> is \<open>CAPA\<close> in any case
  and \<open>args[2]\<close> is \<open>dragonfly\<close>; every other such vector is answered with \<open>+OK\<close> and
  leaves the master and the connection as they were.
\<close>

theorem ReplConf_capa_dragonfly:
  assumes "length args mod 2 = 1" and "length (master_id m) = CONFIG_RUN_ID_SIZE"
  shows "(length args = 3 \<and> ToUpper (args ! 1) = ''CAPA'' \<and> args ! 2 = ''dragonfly'' \<longrightarrow>
            ReplConf args m c =
              ([StartArray 3, SendSimpleString (master_id m),
                SendSimpleString (''SYNC'' @ dec_string (next_sync_id m)),
                SendLong (int (pool_size m))],
               args[1 := ''CAPA''],
               m\<lparr>sync_sessions := sync_sessions m @ [next_sync_id m],
                  next_sync_id := Suc (next_sync_id m)\<rparr>,
               c\<lparr>conn_name := ''repl_ctrl_'' @ dec_string (next_sync_id m),
                  repl_session_id := next_sync_id m\<rparr>)
            \<and> length (master_id m) = 40)
         \<and> (\<not> (length args = 3 \<and> ToUpper (args ! 1) = ''CAPA'' \<and> args ! 2 = ''dragonfly'') \<longrightarrow>
            (\<exists>args'. ReplConf args m c = ([SendOk], args', m, c)))"
proof (intro conjI impI)
  assume a: "length args = 3 \<and> ToUpper (args ! 1) = ''CAPA'' \<and> args ! 2 = ''dragonfly''"
  then have l: "length args = 3" and k: "ToUpper (args ! 1) = ''CAPA''"
    and v: "args ! 2 = ''dragonfly''" by simp_all
  have "ReplConf args m c = ReplConf_loop 1 args m c"
    using assms(1) by (simp add: ReplConf_def)
  also have "\<dots> =
              ([StartArray 3, SendSimpleString (master_id m),
                SendSimpleString (''SYNC'' @ dec_string (next_sync_id m)),
                SendLong (int (pool_size m))],
               args[1 := ''CAPA''],
               m\<lparr>sync_sessions := sync_sessions m @ [next_sync_id m],
                  next_sync_id := Suc (next_sync_id m)\<rparr>,
               c\<lparr>conn_name := ''repl_ctrl_'' @ dec_string (next_sync_id m),
                  repl_session_id := next_sync_id m\<rparr>)"
    using l k v by (rule ReplConf_loop_capa)
  finally show "ReplConf args m c =
              ([StartArray 3, SendSimpleString (master_id m),
                SendSimpleString (''SYNC'' @ dec_string (next_sync_id m)),
                SendLong (int (pool_size m))],
               args[1 := ''CAPA''],
               m\<lparr>sync_sessions := sync_sessions m @ [next_sync_id m],
                  next_sync_id := Suc (next_sync_id m)\<rparr>,
               c\<lparr>conn_name := ''repl_ctrl_'' @ dec_string (next_sync_id m),
                  repl_session_id := next_sync_id m\<rparr>)" .
next
  show "length (master_id m) = 40" using assms(2) by (simp add: CONFIG_RUN_ID_SIZE_def)
next
  assume n: "\<not> (length args = 3 \<and> ToUpper (args ! 1) = ''CAPA'' \<and> args ! 2 = ''dragonfly'')"
  then have "1 \<noteq> (1::nat) \<or> length args \<noteq> 3 \<or> ToUpper (args ! 1) \<noteq> ''CAPA''
      \<or> args ! 2 \<noteq> ''dragonfly''" by blast
  from ReplConf_loop_no_capa [OF this] assms(1)
  show "\<exists>args'. ReplConf args m c = ([SendOk], args', m, c)"
    by (simp add: ReplConf_def)
qed

theorem ReplConf_capa_dragonfly_witness:
  "length [''REPLCONF'', ''capa'', ''dragonfly''] mod 2 = 1
   \<and> length (master_id \<lparr>master_id = replicate 40 CHR ''a'', pool_size = 4,
                         sync_sessions = [], next_sync_id = 7\<rparr>) = CONFIG_RUN_ID_SIZE
   \<and> ReplConf [''REPLCONF'', ''capa'', ''dragonfly'']
        \<lparr>master_id = replicate 40 CHR ''a'', pool_size = 4, sync_sessions = [], next_sync_id = 7\<rparr>
        \<lparr>conn_name = [], repl_session_id = 0\<rparr>
      = ([StartArray 3, SendSimpleString (replicate 40 CHR ''a''), SendSimpleString ''SYNC7'',
          SendLong 4],
         [''REPLCONF'', ''CAPA'', ''dragonfly''],
         \<lparr>master_id = replicate 40 CHR ''a'', pool_size = 4, sync_sessions = [7], next_sync_id = 8\<rparr>,
         \<lparr>conn_name = ''repl_ctrl_7'', repl_session_id = 7\<rparr>)
   \<and> (\<exists>args'. ReplConf [''REPLCONF'', ''capa'', ''eof'']
        \<lparr>master_id = replicate 40 CHR ''a'', pool_size = 4, sync_sessions = [], next_sync_id = 7\<rparr>
        \<lparr>conn_name = [], repl_session_id = 0\<rparr>
      = ([SendOk], args',
         \<lparr>master_id = replicate 40 CHR ''a'', pool_size = 4, sync_sessions = [], next_sync_id = 7\<rparr>,
         \<lparr>conn_name = [], repl_session_id = 0\<rparr>))"
proof -
  let ?m = "\<lparr>master_id = replicate 40 CHR ''a'', pool_size = 4, sync_sessions = [],
             next_sync_id = 7\<rparr>"
  let ?c = "\<lparr>conn_name = [], repl_session_id = 0\<rparr>"
  have h1: "length [''REPLCONF'', ''capa'', ''dragonfly''] mod 2 = 1" by simp
  have h1': "length [''REPLCONF'', ''capa'', ''eof''] mod 2 = 1" by simp
  have h2: "length (master_id ?m) = CONFIG_RUN_ID_SIZE" by (simp add: CONFIG_RUN_ID_SIZE_def)
  have d7: "dec_string 7 = ''7''"
    by (simp add: dec_string.simps digit_char_def char_eq_via_nat)
  have p: "length [''REPLCONF'', ''capa'', ''dragonfly''] = 3
      \<and> ToUpper ([''REPLCONF'', ''capa'', ''dragonfly''] ! 1) = ''CAPA''
      \<and> [''REPLCONF'', ''capa'', ''dragonfly''] ! 2 = ''dragonfly''"
    by (simp add: ToUpper_capa)
  have q: "\<not> (length [''REPLCONF'', ''capa'', ''eof''] = 3
      \<and> ToUpper ([''REPLCONF'', ''capa'', ''eof''] ! 1) = ''CAPA''
      \<and> [''REPLCONF'', ''capa'', ''eof''] ! 2 = ''dragonfly'')"
    by simp
  have a: "ReplConf [''REPLCONF'', ''capa'', ''dragonfly''] ?m ?c
      = ([StartArray 3, SendSimpleString (replicate 40 CHR ''a''), SendSimpleString ''SYNC7'',
          SendLong 4],
         [''REPLCONF'', ''CAPA'', ''dragonfly''],
         \<lparr>master_id = replicate 40 CHR ''a'', pool_size = 4, sync_sessions = [7], next_sync_id = 8\<rparr>,
         \<lparr>conn_name = ''repl_ctrl_7'', repl_session_id = 7\<rparr>)"
    using ReplConf_capa_dragonfly [OF h1 h2, of ?c, THEN conjunct1, THEN mp, OF p, THEN conjunct1]
    by (simp add: d7)
  have b: "\<exists>args'. ReplConf [''REPLCONF'', ''capa'', ''eof''] ?m ?c = ([SendOk], args', ?m, ?c)"
    by (rule ReplConf_capa_dragonfly [OF h1' h2, of ?c, THEN conjunct2, THEN mp, OF q])
  from h1 h2 a b show ?thesis by blast
qed

section \<open>Properties of the replica's handshake\<close>

lemma ReadRespReply_nonempty:
  "ReadRespReply ra rounds = Some (None, args, rest) \<Longrightarrow> args \<noteq> []"
  by (induction rounds arbitrary: ra) (auto split: option.splits if_splits)

lemma Greet_expect_ok:
  assumes "ReadRespReply (resp_args r) rounds = Some (None, [STRING expected], rest)"
  shows "Greet_expect None expected r rounds = Some (None, r\<lparr>resp_args := [STRING expected]\<rparr>, rest)"
  using assms by (simp add: Greet_expect_def)

lemma Greet_reaches_capa_reply:
  assumes "ReadRespReply (resp_args r) rounds = Some (None, [STRING ''PONG''], rounds1)"
    and "ReadRespReply [STRING ''PONG''] rounds1 = Some (None, [STRING ''OK''], rounds2)"
    and "ReadRespReply [STRING ''OK''] rounds2 = Some (None, args, rest)"
  shows "Greet (None, None, None) rounds r = Some (Greet_capa_reply (r\<lparr>resp_args := args\<rparr>))"
proof -
  have 1: "Greet_expect None ''PONG'' r rounds
      = Some (None, r\<lparr>resp_args := [STRING ''PONG'']\<rparr>, rounds1)"
    using assms(1) by (rule Greet_expect_ok)
  have "ReadRespReply (resp_args (r\<lparr>resp_args := [STRING ''PONG'']\<rparr>)) rounds1
      = Some (None, [STRING ''OK''], rounds2)"
    using assms(2) by simp
  then have 2: "Greet_expect None ''OK'' (r\<lparr>resp_args := [STRING ''PONG'']\<rparr>) rounds1
      = Some (None, r\<lparr>resp_args := [STRING ''PONG'']\<rparr>\<lparr>resp_args := [STRING ''OK'']\<rparr>, rounds2)"
    by (rule Greet_expect_ok)
  have 3: "ReadRespReply (resp_args (r\<lparr>resp_args := [STRING ''PONG'']\<rparr>\<lparr>resp_args := [STRING ''OK'']\<rparr>)) rounds2
      = Some (None, args, rest)"
    using assms(3) by simp
  show ?thesis
    unfolding Greet_def by (simp add: 1 2 assms(3))
qed

lemma Greet_capa_reply_legacy:
  "Greet_capa_reply (r\<lparr>resp_args := [STRING ''OK'']\<rparr>)
     = (None, r\<lparr>resp_args := [STRING ''OK''], state_mask := insert R_GREETED (state_mask r)\<rparr>)"
  by (simp add: Greet_capa_reply_def)

lemma Greet_capa_reply_native:
  assumes "length repl_id = 40" "1 \<le> flows" "flows \<le> 1024"
  shows "Greet_capa_reply (r\<lparr>resp_args := [STRING repl_id, STRING session, INT64 flows]\<rparr>)
     = (None, r\<lparr>resp_args := [STRING repl_id, STRING session, INT64 flows],
               master_repl_id := repl_id, dfly_session_id := session,
               num_df_flows := nat flows,
               state_mask := insert R_GREETED (state_mask r)\<rparr>)"
  using assms by (simp add: Greet_capa_reply_def CONFIG_RUN_ID_SIZE_def)

lemma Greet_capa_reply_other:
  assumes ne: "args \<noteq> []"
    and nl: "\<not> legacy_reply args"
    and nn: "\<forall>repl_id session flows. \<not> native_reply args repl_id session flows"
  shows "Greet_capa_reply (r\<lparr>resp_args := args\<rparr>) = (Some bad_message, r\<lparr>resp_args := args\<rparr>)"
proof -
  from ne obtain x xs where args: "args = x # xs" by (cases args) auto
  show ?thesis
  proof (cases x)
    case (STRING cmd)
    show ?thesis
    proof (cases "length args = 1")
      case True
      with args have "xs = []" by simp
      with nl args STRING have "cmd \<noteq> ''OK''" by (simp add: legacy_reply_def)
      with True args STRING show ?thesis by (simp add: Greet_capa_reply_def)
    next
      case n1: False
      show ?thesis
      proof (cases "length args = 3")
        case False
        with n1 args STRING show ?thesis by (simp add: Greet_capa_reply_def)
      next
        case True
        with args obtain y z where xs: "xs = [y, z]"
          by (cases xs; cases "tl xs"; cases "tl (tl xs)") auto
        have a3: "args = [STRING cmd, y, z]" using args STRING xs by simp
        show ?thesis
        proof (cases "\<exists>p1 p2. y = STRING p1 \<and> z = INT64 p2")
          case False
          then show ?thesis
            unfolding a3 by (cases y; cases z) (simp_all add: Greet_capa_reply_def)
        next
          case True
          then obtain p1 p2 where yz: "y = STRING p1" "z = INT64 p2" by blast
          from nn a3 yz have "\<not> (length cmd = 40 \<and> 1 \<le> p2 \<and> p2 \<le> 1024)"
            by (simp add: native_reply_def)
          then show ?thesis
            unfolding a3 yz by (auto simp: Greet_capa_reply_def Let_def CONFIG_RUN_ID_SIZE_def)
        qed
      qed
    qed
  qed (simp_all add: args Greet_capa_reply_def)
qed

text \<open>
  Claim C6. Once the \<open>PING\<close> and the first \<open>REPLCONF\<close> have been answered with \<open>PONG\<close> and
  \<open>OK\<close> and the reply \<open>args\<close> to \<open>REPLCONF capa dragonfly\<close> has been read, \<open>Greet\<close> fails
  with \<open>bad_message\<close> unless \<open>args\<close> is the single string \<open>OK\<close> or three elements, a
  string of exactly 40 bytes, a string and an integer in \<open>[1, 1024]\<close>. In the second
  case it stores them as \<open>master_repl_id\<close>, \<open>dfly_session_id\<close> and the flow count; in both
  it sets the bit \<open>R_GREETED\<close> and returns success.
\<close>

theorem Greet_capa_dragonfly_reply:
  assumes "ReadRespReply (resp_args r) rounds = Some (None, [STRING ''PONG''], rounds1)"
    and "ReadRespReply [STRING ''PONG''] rounds1 = Some (None, [STRING ''OK''], rounds2)"
    and "ReadRespReply [STRING ''OK''] rounds2 = Some (None, args, rest)"
  shows "(legacy_reply args \<longrightarrow>
            Greet (None, None, None) rounds r
              = Some (None, r\<lparr>resp_args := args,
                             state_mask := insert R_GREETED (state_mask r)\<rparr>))
       \<and> (native_reply args repl_id session flows \<longrightarrow>
            Greet (None, None, None) rounds r
              = Some (None, r\<lparr>resp_args := args,
                             master_repl_id := repl_id, dfly_session_id := session,
                             num_df_flows := nat flows,
                             state_mask := insert R_GREETED (state_mask r)\<rparr>))
       \<and> (\<not> legacy_reply args \<and> (\<forall>i s f. \<not> native_reply args i s f) \<longrightarrow>
            Greet (None, None, None) rounds r
              = Some (Some bad_message, r\<lparr>resp_args := args\<rparr>))"
proof -
  note g = Greet_reaches_capa_reply [OF assms]
  have ne: "args \<noteq> []" using assms(3) by (rule ReadRespReply_nonempty)
  show ?thesis
  proof (intro conjI impI)
    assume "legacy_reply args"
    then have "args = [STRING ''OK'']" by (simp add: legacy_reply_def)
    then show "Greet (None, None, None) rounds r
              = Some (None, r\<lparr>resp_args := args,
                             state_mask := insert R_GREETED (state_mask r)\<rparr>)"
      by (simp add: g Greet_capa_reply_legacy)
  next
    assume "native_reply args repl_id session flows"
    then have a: "args = [STRING repl_id, STRING session, INT64 flows]"
      and b: "length repl_id = 40" "1 \<le> flows" "flows \<le> 1024"
      by (simp_all add: native_reply_def)
    show "Greet (None, None, None) rounds r
              = Some (None, r\<lparr>resp_args := args,
                             master_repl_id := repl_id, dfly_session_id := session,
                             num_df_flows := nat flows,
                             state_mask := insert R_GREETED (state_mask r)\<rparr>)"
      unfolding g a by (simp add: Greet_capa_reply_native [OF b])
  next
    assume "\<not> legacy_reply args \<and> (\<forall>i s f. \<not> native_reply args i s f)"
    then show "Greet (None, None, None) rounds r
              = Some (Some bad_message, r\<lparr>resp_args := args\<rparr>)"
      by (simp add: g Greet_capa_reply_other [OF ne])
  qed
qed

theorem Greet_capa_dragonfly_reply_witness:
  "ReadRespReply []
      [\<lparr>recv_error = None, parse_result = OK, parsed_args = [STRING ''PONG'']\<rparr>,
       \<lparr>recv_error = None, parse_result = OK, parsed_args = [STRING ''OK'']\<rparr>,
       \<lparr>recv_error = None, parse_result = INPUT_PENDING, parsed_args = []\<rparr>,
       \<lparr>recv_error = None, parse_result = OK,
         parsed_args = [STRING (replicate 40 CHR ''a''), STRING ''SYNC7'', INT64 3]\<rparr>]
     = Some (None, [STRING ''PONG''],
        [\<lparr>recv_error = None, parse_result = OK, parsed_args = [STRING ''OK'']\<rparr>,
         \<lparr>recv_error = None, parse_result = INPUT_PENDING, parsed_args = []\<rparr>,
         \<lparr>recv_error = None, parse_result = OK,
           parsed_args = [STRING (replicate 40 CHR ''a''), STRING ''SYNC7'', INT64 3]\<rparr>])
   \<and> native_reply [STRING (replicate 40 CHR ''a''), STRING ''SYNC7'', INT64 3]
        (replicate 40 CHR ''a'') ''SYNC7'' 3
   \<and> Greet (None, None, None)
      [\<lparr>recv_error = None, parse_result = OK, parsed_args = [STRING ''PONG'']\<rparr>,
       \<lparr>recv_error = None, parse_result = OK, parsed_args = [STRING ''OK'']\<rparr>,
       \<lparr>recv_error = None, parse_result = INPUT_PENDING, parsed_args = []\<rparr>,
       \<lparr>recv_error = None, parse_result = OK,
         parsed_args = [STRING (replicate 40 CHR ''a''), STRING ''SYNC7'', INT64 3]\<rparr>]
      \<lparr>master_repl_id = [], dfly_session_id = [], num_df_flows = 0,
        state_mask = {R_ENABLED, R_TCP_CONNECTED}, resp_args = []\<rparr>
     = Some (None,
        \<lparr>master_repl_id = replicate 40 CHR ''a'', dfly_session_id = ''SYNC7'', num_df_flows = 3,
          state_mask = {R_GREETED, R_ENABLED, R_TCP_CONNECTED},
          resp_args = [STRING (replicate 40 CHR ''a''), STRING ''SYNC7'', INT64 3]\<rparr>)
   \<and> \<not> legacy_reply [STRING ''OK'', STRING ''x'']
   \<and> (\<forall>i s f. \<not> native_reply [STRING ''OK'', STRING ''x''] i s f)
   \<and> Greet (None, None, None)
      [\<lparr>recv_error = None, parse_result = OK, parsed_args = [STRING ''PONG'']\<rparr>,
       \<lparr>recv_error = None, parse_result = OK, parsed_args = [STRING ''OK'']\<rparr>,
       \<lparr>recv_error = None, parse_result = OK, parsed_args = [STRING ''OK'', STRING ''x'']\<rparr>]
      \<lparr>master_repl_id = [], dfly_session_id = [], num_df_flows = 0,
        state_mask = {R_ENABLED, R_TCP_CONNECTED}, resp_args = []\<rparr>
     = Some (Some bad_message,
        \<lparr>master_repl_id = [], dfly_session_id = [], num_df_flows = 0,
          state_mask = {R_ENABLED, R_TCP_CONNECTED},
          resp_args = [STRING ''OK'', STRING ''x'']\<rparr>)"
proof -
  let ?r = "\<lparr>master_repl_id = [], dfly_session_id = [], num_df_flows = 0,
        state_mask = {R_ENABLED, R_TCP_CONNECTED}, resp_args = []\<rparr>"
  let ?pong = "\<lparr>recv_error = None, parse_result = OK, parsed_args = [STRING ''PONG'']\<rparr>"
  let ?ok = "\<lparr>recv_error = None, parse_result = OK, parsed_args = [STRING ''OK'']\<rparr>"
  let ?pend = "\<lparr>recv_error = None, parse_result = INPUT_PENDING, parsed_args = []\<rparr>"
  let ?nat = "[STRING (replicate 40 CHR ''a''), STRING ''SYNC7'', INT64 3]"
  let ?bad = "[STRING ''OK'', STRING ''x'']"
  let ?r3 = "\<lparr>recv_error = None, parse_result = OK, parsed_args = ?nat\<rparr>"
  let ?b3 = "\<lparr>recv_error = None, parse_result = OK, parsed_args = ?bad\<rparr>"
  have a1: "ReadRespReply (resp_args ?r) [?pong, ?ok, ?pend, ?r3]
      = Some (None, [STRING ''PONG''], [?ok, ?pend, ?r3])" by simp
  have a2: "ReadRespReply [STRING ''PONG''] [?ok, ?pend, ?r3]
      = Some (None, [STRING ''OK''], [?pend, ?r3])" by simp
  have a3: "ReadRespReply [STRING ''OK''] [?pend, ?r3] = Some (None, ?nat, [])" by simp
  have n: "native_reply ?nat (replicate 40 CHR ''a'') ''SYNC7'' 3"
    by (simp add: native_reply_def)
  have g1: "Greet (None, None, None) [?pong, ?ok, ?pend, ?r3] ?r
      = Some (None, ?r\<lparr>resp_args := ?nat,
                master_repl_id := replicate 40 CHR ''a'', dfly_session_id := ''SYNC7'',
                num_df_flows := nat 3,
                state_mask := insert R_GREETED (state_mask ?r)\<rparr>)"
    by (rule Greet_capa_dragonfly_reply [OF a1 a2 a3, THEN conjunct2, THEN conjunct1, THEN mp, OF n])
  have b1: "ReadRespReply (resp_args ?r) [?pong, ?ok, ?b3]
      = Some (None, [STRING ''PONG''], [?ok, ?b3])" by simp
  have b2: "ReadRespReply [STRING ''PONG''] [?ok, ?b3] = Some (None, [STRING ''OK''], [?b3])"
    by simp
  have b3: "ReadRespReply [STRING ''OK''] [?b3] = Some (None, ?bad, [])" by simp
  have nl: "\<not> legacy_reply ?bad" by (simp add: legacy_reply_def)
  have nn: "\<forall>i s f. \<not> native_reply ?bad i s f" by (simp add: native_reply_def)
  have g2: "Greet (None, None, None) [?pong, ?ok, ?b3] ?r
      = Some (Some bad_message, ?r\<lparr>resp_args := ?bad\<rparr>)"
    using Greet_capa_dragonfly_reply [OF b1 b2 b3, THEN conjunct2, THEN conjunct2] nl nn
    by blast
  from a1 n g1 nl nn g2 show ?thesis by simp
qed

section \<open>Properties of saving\<close>

lemma UpdateError_None: "UpdateError src dest = None \<Longrightarrow> dest = None"
  by (cases dest) (simp_all add: UpdateError_def)

lemma save_cb_None: "save_cb env sn i ec = None \<Longrightarrow> ec = None"
proof (cases ec)
  case None
  then show ?thesis by simp
next
  case (Some e)
  have "save_cb env sn i (Some e) = Some e"
    by (simp add: save_cb_def Let_def UpdateError_def)
  moreover assume "save_cb env sn i ec = None"
  ultimately show ?thesis using Some by simp
qed

lemma close_cb_None: "close_cb env sn i ec = None \<Longrightarrow> ec = None"
proof (cases ec)
  case None
  then show ?thesis by simp
next
  case (Some e)
  have "close_cb env sn i (Some e) = Some e"
    by (simp add: close_cb_def UpdateError_def)
  moreover assume "close_cb env sn i ec = None"
  ultimately show ?thesis using Some by simp
qed

lemma fold_None:
  assumes "\<And>i ec. cb i ec = None \<Longrightarrow> ec = (None :: error_code)"
  shows "fold cb xs ec = None \<Longrightarrow> ec = None"
proof (induction xs arbitrary: ec)
  case Nil
  then show ?case by simp
next
  case (Cons x xs)
  from Cons.prems have "fold cb xs (cb x ec) = None" by simp
  then have "cb x ec = None" by (rule Cons.IH)
  then show ?case by (rule assms)
qed

lemma RunStage_None:
  assumes "\<And>i ec. cb i ec = None \<Longrightarrow> ec = (None :: error_code)"
    and "RunStage nv n cb ec = None"
  shows "ec = None"
proof (cases nv)
  case True
  with assms(2) have "fold cb [0..<n] ec = None" by (simp add: RunStage_def)
  with assms(1) show ?thesis by (rule fold_None)
next
  case False
  with assms(2) have "cb 0 ec = None" by (simp add: RunStage_def)
  then show ?thesis by (rule assms(1))
qed

lemma finish_save_props:
  assumes "finish_save env nv filename path (ec0, sn, files) s = (ec, s')"
  shows "opened_files s' = opened_files s @ files"
    and "global_state s' = global_state s"
    and "ec = None \<Longrightarrow> ec0 = None"
    and "ec = None \<Longrightarrow> last_save_info s' =
           \<lparr>save_time = Now env,
            file_name = (if nv then path @ ExtendFilename (FormatTs env) (Now env) 0 filename
                         else path),
            freq_map = rdb_name_map env\<rparr>"
    and "ec \<noteq> None \<Longrightarrow> last_save_info s' = last_save_info s"
proof -
  let ?n = "shard_set_size env"
  let ?ec1 = "RunStage nv ?n (save_cb env sn) ec0"
  let ?ec2 = "RunStage nv ?n (close_cb env sn) ?ec1"
  let ?p1 = "if nv then path @ ExtendFilename (FormatTs env) (Now env) 0 filename else path"
  let ?s1 = "s\<lparr>is_saving := False, opened_files := opened_files s @ files\<rparr>"
  let ?info = "\<lparr>save_time = Now env, file_name = ?p1, freq_map = rdb_name_map env\<rparr>"
  have eq: "finish_save env nv filename path (ec0, sn, files) s =
      (if ?ec2 = None then (?ec2, ?s1\<lparr>last_save_info := ?info\<rparr>) else (?ec2, ?s1))"
    unfolding finish_save_def Let_def prod.case by (rule refl)
  have none: "ec0 = None" if "?ec2 = None"
  proof -
    have "?ec1 = None" using close_cb_None that by (rule RunStage_None)
    with save_cb_None show ?thesis by (rule RunStage_None)
  qed
  show "opened_files s' = opened_files s @ files"
  proof (cases "?ec2 = None")
    case True
    with eq assms have "s' = ?s1\<lparr>last_save_info := ?info\<rparr>" by simp
    then show ?thesis by simp
  next
    case False
    with eq assms have "s' = ?s1" by simp
    then show ?thesis by simp
  qed
  show "global_state s' = global_state s"
  proof (cases "?ec2 = None")
    case True
    with eq assms have "s' = ?s1\<lparr>last_save_info := ?info\<rparr>" by simp
    then show ?thesis by simp
  next
    case False
    with eq assms have "s' = ?s1" by simp
    then show ?thesis by simp
  qed
  show "ec0 = None" if "ec = None"
  proof (cases "?ec2 = None")
    case True
    then show ?thesis by (rule none)
  next
    case False
    with eq assms have "ec = ?ec2" by simp
    with False that show ?thesis by simp
  qed
  show "last_save_info s' = ?info" if "ec = None"
  proof (cases "?ec2 = None")
    case True
    with eq assms have "s' = ?s1\<lparr>last_save_info := ?info\<rparr>" by simp
    then show ?thesis by simp
  next
    case False
    with eq assms have "ec = ?ec2" by simp
    with False that show ?thesis by simp
  qed
  show "last_save_info s' = last_save_info s" if "ec \<noteq> None"
  proof (cases "?ec2 = None")
    case True
    with eq assms have "ec = None" by simp
    with that show ?thesis by simp
  next
    case False
    with eq assms have "s' = ?s1" by simp
    then show ?thesis by simp
  qed
qed

lemma shard_cb_acc:
  assumes "shard_cb env filename path sid (ec, sn, files) = (ec', sn', files')"
    and "ec' = None"
  shows "ec = None
    \<and> files' = files @ [path @ ExtendFilename (FormatTs env) (Now env) (int sid) filename]"
proof (cases "OpenLinux env (path @ ExtendFilename (FormatTs env) (Now env) (int sid) filename)")
  case (Some e)
  have "shard_cb env filename path sid (ec, sn, files) = (UpdateError (Some e) ec, sn, files)"
    unfolding shard_cb_def Let_def prod.case Some option.case by (rule refl)
  with assms(1) have "ec' = UpdateError (Some e) ec" by simp
  with assms(2) show ?thesis by (simp add: UpdateError_def split: if_splits)
next
  case None
  have "shard_cb env filename path sid (ec, sn, files) =
      ((if Start env sid \<noteq> None then UpdateError (Start env sid) ec else ec),
       sn[sid := Some (Start env sid = None)],
       files @ [path @ ExtendFilename (FormatTs env) (Now env) (int sid) filename])"
    unfolding shard_cb_def Let_def prod.case None option.case by (rule refl)
  with assms(1) have e: "ec' = (if Start env sid \<noteq> None then UpdateError (Start env sid) ec else ec)"
    and f: "files' = files @ [path @ ExtendFilename (FormatTs env) (Now env) (int sid) filename]"
    by simp_all
  from e assms(2) have "ec = None" by (simp add: UpdateError_def split: if_splits)
  with f show ?thesis by simp
qed

lemma fold_shard_cb_acc:
  "fold (shard_cb env filename path) xs (ec, sn, files) = (ec', sn', files') \<Longrightarrow> ec' = None \<Longrightarrow>
   ec = None
   \<and> files' = files @ map (\<lambda>sid. path @ ExtendFilename (FormatTs env) (Now env) (int sid) filename) xs"
proof (induction xs arbitrary: ec sn files)
  case Nil
  then show ?case by simp
next
  case (Cons x xs)
  obtain e1 s1 f1 where st: "shard_cb env filename path x (ec, sn, files) = (e1, s1, f1)"
    by (cases "shard_cb env filename path x (ec, sn, files)") auto
  with Cons.prems have "fold (shard_cb env filename path) xs (e1, s1, f1) = (ec', sn', files')"
    by simp
  from Cons.IH [OF this Cons.prems(2)]
  have e1: "e1 = None"
    and f: "files' = f1 @ map (\<lambda>sid. path @ ExtendFilename (FormatTs env) (Now env) (int sid) filename) xs"
    by simp_all
  from shard_cb_acc [OF st e1] f show ?case by simp
qed

lemma SwitchState_proceeds:
  "g = ACTIVE \<or> g = SAVING \<Longrightarrow> SwitchState ACTIVE SAVING g = (SAVING, SAVING)"
  by (auto simp: SwitchState_def)

lemma SwitchState_conflict:
  "g \<noteq> ACTIVE \<Longrightarrow> SwitchState ACTIVE SAVING g = (g, g)"
  by (simp add: SwitchState_def)

lemma SwitchState_back: "snd (SwitchState SAVING ACTIVE SAVING) = ACTIVE"
  by (simp add: SwitchState_def)

lemma DoSave_create_dir_error:
  assumes "FLAGS_dir env \<noteq> []" and "CreateDirs env = Some e"
  shows "DoSave env nv s = (Some e, ''create-dir '', s)"
proof -
  have e: "(if FLAGS_dir env \<noteq> [] then CreateDirs env else None) = Some e"
    using assms by simp
  show ?thesis unfolding DoSave_def Let_def e by simp
qed

lemma DoSave_state_conflict:
  assumes "FLAGS_dir env = [] \<or> CreateDirs env = None"
    and "global_state s \<noteq> ACTIVE" and "global_state s \<noteq> SAVING"
  shows "DoSave env nv s =
    (Some operation_in_progress,
     GlobalStateName (global_state s) @ '' - can not save database'', s)"
proof -
  have e: "(if FLAGS_dir env \<noteq> [] then CreateDirs env else None) = None"
    using assms(1) by auto
  have sw: "SwitchState ACTIVE SAVING (global_state s) = (global_state s, global_state s)"
    using assms(2) by (rule SwitchState_conflict)
  show ?thesis unfolding DoSave_def Let_def e sw prod.case using assms(3) by simp
qed

lemma DoSave_native:
  fixes env :: save_env and s :: server
  defines "filename \<equiv> (if FLAGS_dbfilename env = [] then ''dump'' else FLAGS_dbfilename env)"
  assumes "FLAGS_dir env = [] \<or> CreateDirs env = None"
    and "global_state s = ACTIVE \<or> global_state s = SAVING"
  shows "DoSave env True s =
    (case finish_save env True filename (FLAGS_dir env)
            (fold (shard_cb env filename (FLAGS_dir env)) [0..<shard_set_size env]
               (None, replicate (shard_set_size env) None, []))
            (s\<lparr>global_state := SAVING\<rparr>) of
       (ec3, s2) \<Rightarrow>
         (ec3, [], s2\<lparr>global_state := snd (SwitchState SAVING ACTIVE (global_state s2))\<rparr>))"
proof -
  have e: "(if FLAGS_dir env \<noteq> [] then CreateDirs env else None) = None"
    using assms(2) by auto
  have sw: "SwitchState ACTIVE SAVING (global_state s) = (SAVING, SAVING)"
    using assms(3) by (rule SwitchState_proceeds)
  show ?thesis unfolding DoSave_def Let_def e sw prod.case filename_def by simp
qed

lemma DoSave_legacy:
  fixes env :: save_env and s :: server
  defines "filename1 \<equiv> ExtendFilename (FormatTs env) (Now env) (- 1)
      (if FLAGS_dbfilename env = [] then ''dump'' else FLAGS_dbfilename env)"
  assumes "FLAGS_dir env = [] \<or> CreateDirs env = None"
    and "global_state s = ACTIVE \<or> global_state s = SAVING"
  shows "DoSave env False s =
    (case OpenLinux env (FLAGS_dir env @ filename1) of
       Some e \<Rightarrow> (Some e, [], s\<lparr>global_state := ACTIVE\<rparr>)
     | None \<Rightarrow>
        (case finish_save env False filename1 (FLAGS_dir env @ filename1)
                (Start env 0, [Some (Start env 0 = None)], [FLAGS_dir env @ filename1])
                (s\<lparr>global_state := SAVING\<rparr>) of
           (ec3, s2) \<Rightarrow>
             (ec3, [], s2\<lparr>global_state := snd (SwitchState SAVING ACTIVE (global_state s2))\<rparr>)))"
proof -
  have e: "(if FLAGS_dir env \<noteq> [] then CreateDirs env else None) = None"
    using assms(2) by auto
  have sw: "SwitchState ACTIVE SAVING (global_state s) = (SAVING, SAVING)"
    using assms(3) by (rule SwitchState_proceeds)
  show ?thesis unfolding DoSave_def Let_def e sw prod.case filename1_def
    by (simp add: SwitchState_back split: option.splits)
qed

lemma DoSave_outcome:
  assumes r: "DoSave env nv s = (ec, err_details, s')"
  shows "(ec \<noteq> None \<longrightarrow> last_save_info s' = last_save_info s)
       \<and> (ec = None \<longrightarrow>
            (\<exists>files fn. opened_files s' = opened_files s @ files
               \<and> (0 < shard_set_size env \<longrightarrow> fn \<in> set files)
               \<and> last_save_info s' =
                   \<lparr>save_time = Now env, file_name = fn, freq_map = rdb_name_map env\<rparr>))"
proof (cases "FLAGS_dir env = [] \<or> CreateDirs env = None")
  case False
  then obtain e where "FLAGS_dir env \<noteq> []" "CreateDirs env = Some e" by auto
  from DoSave_create_dir_error [OF this, of nv s] r show ?thesis by simp
next
  case dir: True
  show ?thesis
  proof (cases "global_state s = ACTIVE \<or> global_state s = SAVING")
    case False
    then have "global_state s \<noteq> ACTIVE" "global_state s \<noteq> SAVING" by simp_all
    from DoSave_state_conflict [OF dir this, of nv] r show ?thesis by simp
  next
    case g: True
    let ?filename = "if FLAGS_dbfilename env = [] then ''dump'' else FLAGS_dbfilename env"
    let ?s1 = "s\<lparr>global_state := SAVING\<rparr>"
    show ?thesis
    proof (cases nv)
      case True
      let ?f = "\<lambda>sid. FLAGS_dir env @ ExtendFilename (FormatTs env) (Now env) (int sid) ?filename"
      let ?acc = "fold (shard_cb env ?filename (FLAGS_dir env)) [0..<shard_set_size env]
               (None, replicate (shard_set_size env) None, [])"
      obtain e0 sn files where acc: "?acc = (e0, sn, files)" by (cases ?acc) auto
      obtain ec3 s2 where fin:
        "finish_save env True ?filename (FLAGS_dir env) (e0, sn, files) ?s1 = (ec3, s2)"
        by (cases "finish_save env True ?filename (FLAGS_dir env) (e0, sn, files) ?s1") auto
      from DoSave_native [OF dir g] r True acc fin
      have ec: "ec = ec3" and s': "s' = s2\<lparr>global_state := snd (SwitchState SAVING ACTIVE (global_state s2))\<rparr>"
        by simp_all
      note p = finish_save_props [OF fin]
      have of: "opened_files s' = opened_files s @ files" using s' p(1) by simp
      have li: "last_save_info s' = last_save_info s2" using s' by simp
      show ?thesis
      proof (intro conjI impI)
        assume "ec \<noteq> None"
        with ec p(5) li show "last_save_info s' = last_save_info s" by simp
      next
        assume "ec = None"
        with ec have z: "ec3 = None" by simp
        then have "e0 = None" by (rule p(3))
        from fold_shard_cb_acc [OF acc this]
        have files: "files = map ?f [0..<shard_set_size env]" by simp
        have mem: "0 < shard_set_size env \<longrightarrow> ?f 0 \<in> set files"
        proof
          assume n: "0 < shard_set_size env"
          have "0 \<in> set [0..<shard_set_size env]" using n by simp
          then have "?f 0 \<in> ?f ` set [0..<shard_set_size env]" by (rule imageI)
          then show "?f 0 \<in> set files" unfolding files set_map .
        qed
        from p(4) [OF z] li have info: "last_save_info s' =
            \<lparr>save_time = Now env, file_name = ?f 0, freq_map = rdb_name_map env\<rparr>"
          by simp
        have c: "opened_files s' = opened_files s @ files
               \<and> (0 < shard_set_size env \<longrightarrow> ?f 0 \<in> set files)
               \<and> last_save_info s' =
                   \<lparr>save_time = Now env, file_name = ?f 0, freq_map = rdb_name_map env\<rparr>"
          by (intro conjI) (rule of, rule mem, rule info)
        show "\<exists>files fn. opened_files s' = opened_files s @ files
               \<and> (0 < shard_set_size env \<longrightarrow> fn \<in> set files)
               \<and> last_save_info s' =
                   \<lparr>save_time = Now env, file_name = fn, freq_map = rdb_name_map env\<rparr>"
          by (rule exI [where x = files], rule exI [where x = "?f 0"], rule c)
      qed
    next
      case False
      let ?path1 = "FLAGS_dir env @ ExtendFilename (FormatTs env) (Now env) (- 1) ?filename"
      note eq = DoSave_legacy [OF dir g]
      show ?thesis
      proof (cases "OpenLinux env ?path1")
        case (Some e)
        with eq r False have "ec = Some e" "s' = s\<lparr>global_state := ACTIVE\<rparr>" by simp_all
        then show ?thesis by simp
      next
        case None
        obtain ec3 s2 where fin:
          "finish_save env False (ExtendFilename (FormatTs env) (Now env) (- 1) ?filename) ?path1
              (Start env 0, [Some (Start env 0 = None)], [?path1]) ?s1 = (ec3, s2)"
          by (cases "finish_save env False (ExtendFilename (FormatTs env) (Now env) (- 1) ?filename)
              ?path1 (Start env 0, [Some (Start env 0 = None)], [?path1]) ?s1") auto
        from eq r False None fin
        have ec: "ec = ec3"
          and s': "s' = s2\<lparr>global_state := snd (SwitchState SAVING ACTIVE (global_state s2))\<rparr>"
          by simp_all
        note p = finish_save_props [OF fin]
        have of: "opened_files s' = opened_files s @ [?path1]" using s' p(1) by simp
        have li: "last_save_info s' = last_save_info s2" using s' by simp
        show ?thesis
        proof (intro conjI impI)
          assume "ec \<noteq> None"
          with ec p(5) li show "last_save_info s' = last_save_info s" by simp
        next
          assume "ec = None"
          with ec have z: "ec3 = None" by simp
          from p(4) [OF z] li have info: "last_save_info s' =
              \<lparr>save_time = Now env, file_name = ?path1, freq_map = rdb_name_map env\<rparr>"
            by simp
          have mem: "0 < shard_set_size env \<longrightarrow> ?path1 \<in> set [?path1]" by simp
          have c: "opened_files s' = opened_files s @ [?path1]
               \<and> (0 < shard_set_size env \<longrightarrow> ?path1 \<in> set [?path1])
               \<and> last_save_info s' =
                   \<lparr>save_time = Now env, file_name = ?path1, freq_map = rdb_name_map env\<rparr>"
            by (intro conjI) (rule of, rule mem, rule info)
          show "\<exists>files fn. opened_files s' = opened_files s @ files
               \<and> (0 < shard_set_size env \<longrightarrow> fn \<in> set files)
               \<and> last_save_info s' =
                   \<lparr>save_time = Now env, file_name = fn, freq_map = rdb_name_map env\<rparr>"
            by (rule exI [where x = "[?path1]"], rule exI [where x = "?path1"], rule c)
        qed
      qed
    qed
  qed
qed


lemma sample_legacy_filename:
  "ExtendFilename (FormatTs sample_env) (Now sample_env) (- 1) ''dump''
     = ''dump-2022-10-01T12:30:00.rdb''"
proof -
  have "path_extension ''dump'' = []"
    by (simp add: path_extension_def path_filename_def)
  then show ?thesis
    by (simp add: ExtendFilename_def has_extension_def sample_env_def)
qed

lemma failing_legacy_filename:
  "ExtendFilename (FormatTs failing_env) (Now failing_env) (- 1) ''dump''
     = ''dump-2022-10-01T12:30:00.rdb''"
  using sample_legacy_filename by (simp add: failing_env_def sample_env_def)

lemma DoSave_sample:
  assumes "g = ACTIVE \<or> g = SAVING"
  shows "DoSave sample_env False (sample_server g t) =
    (None, [],
     \<lparr>global_state = ACTIVE,
      last_save_info = \<lparr>save_time = 1664627400,
                         file_name = ''/data/dump-2022-10-01T12:30:00.rdb'', freq_map = []\<rparr>,
      is_saving = False,
      opened_files = [''/data/dump-2022-10-01T12:30:00.rdb'']\<rparr>)"
proof -
  have d: "FLAGS_dir sample_env = [] \<or> CreateDirs sample_env = None"
    by (simp add: sample_env_def)
  have g: "global_state (sample_server g t) = ACTIVE \<or> global_state (sample_server g t) = SAVING"
    using assms by (simp add: sample_server_def)
  have fn: "(if FLAGS_dbfilename sample_env = [] then ''dump'' else FLAGS_dbfilename sample_env)
      = ''dump''" by (simp add: sample_env_def)
  have fields: "FLAGS_dir sample_env = ''/data/''" "OpenLinux sample_env = (\<lambda>p. None)"
    "Start sample_env = (\<lambda>i. None)" "SaveBody sample_env = (\<lambda>i. None)"
    "Close sample_env = (\<lambda>i. None)" "rdb_name_map sample_env = []"
    "Now sample_env = 1664627400" "shard_set_size sample_env = 2"
    by (simp_all add: sample_env_def)
  show ?thesis
    unfolding DoSave_legacy [OF d g] fn sample_legacy_filename
    by (simp add: fields finish_save_def RunStage_def save_cb_def close_cb_def UpdateError_def
        SwitchState_def sample_server_def)
qed

lemma DoSave_failing:
  assumes "g = ACTIVE \<or> g = SAVING"
  shows "DoSave failing_env False (sample_server g t) =
    (Some (os_error 13), [], sample_server ACTIVE t)"
proof -
  have d: "FLAGS_dir failing_env = [] \<or> CreateDirs failing_env = None"
    by (simp add: failing_env_def sample_env_def)
  have g: "global_state (sample_server g t) = ACTIVE \<or> global_state (sample_server g t) = SAVING"
    using assms by (simp add: sample_server_def)
  have fn: "(if FLAGS_dbfilename failing_env = [] then ''dump'' else FLAGS_dbfilename failing_env)
      = ''dump''" by (simp add: failing_env_def sample_env_def)
  have fields: "FLAGS_dir failing_env = ''/data/''"
    "OpenLinux failing_env = (\<lambda>p. Some (os_error 13))"
    by (simp_all add: failing_env_def sample_env_def)
  show ?thesis
    unfolding DoSave_legacy [OF d g] fn failing_legacy_filename
    by (simp add: fields sample_server_def)
qed


lemma DoSave_err_details:
  "fst (snd (DoSave env nv s)) = ''create-dir ''
   \<or> fst (snd (DoSave env nv s)) = ''LOADING - can not save database''
   \<or> fst (snd (DoSave env nv s)) = ''SHUTTING_DOWN - can not save database''
   \<or> fst (snd (DoSave env nv s)) = []"
proof (cases "FLAGS_dir env = [] \<or> CreateDirs env = None")
  case False
  then obtain e where "FLAGS_dir env \<noteq> []" "CreateDirs env = Some e" by auto
  from DoSave_create_dir_error [OF this, of nv s] show ?thesis by simp
next
  case dir: True
  show ?thesis
  proof (cases "global_state s = ACTIVE \<or> global_state s = SAVING")
    case False
    then have "global_state s \<noteq> ACTIVE" "global_state s \<noteq> SAVING" by simp_all
    from DoSave_state_conflict [OF dir this, of nv] this show ?thesis
      by (cases "global_state s") (simp_all add: GlobalStateName_def)
  next
    case g: True
    show ?thesis
    proof (cases nv)
      case True
      then show ?thesis
        by (simp add: DoSave_native [OF dir g] split: prod.splits)
    next
      case False
      then show ?thesis
        by (simp add: DoSave_legacy [OF dir g] split: prod.splits option.splits)
    qed
  qed
qed

text \<open>
  Claim C3 asks that \<open>DoSave\<close>, invoked while the global state is \<open>SAVING\<close>, return
  \<open>operation_in_progress\<close> with the details \<open>SAVING - can not save database\<close>, open no
  file and leave the state alone. The code takes the state \<open>SAVING\<close> that \<open>SwitchState\<close>
  returns for the success of the switch: no call of \<open>DoSave\<close> ever produces these
  details, and in the sample run from \<open>SAVING\<close> it opens and writes the snapshot file,
  its guard resets the state to \<open>ACTIVE\<close>, and \<open>SAVE\<close> replies \<open>+OK\<close>.
\<close>

theorem DoSave_while_SAVING_not_rejected:
  "fst (snd (DoSave env new_version s)) \<noteq> ''SAVING - can not save database''
   \<and> DoSave sample_env False (sample_server SAVING 0) =
      (None, [],
       \<lparr>global_state = ACTIVE,
        last_save_info = \<lparr>save_time = 1664627400,
                           file_name = ''/data/dump-2022-10-01T12:30:00.rdb'', freq_map = []\<rparr>,
        is_saving = False,
        opened_files = [''/data/dump-2022-10-01T12:30:00.rdb'']\<rparr>)
   \<and> Save sample_env message [''SAVE''] (sample_server SAVING 0) =
      ([SendOk],
       \<lparr>global_state = ACTIVE,
        last_save_info = \<lparr>save_time = 1664627400,
                           file_name = ''/data/dump-2022-10-01T12:30:00.rdb'', freq_map = []\<rparr>,
        is_saving = False,
        opened_files = [''/data/dump-2022-10-01T12:30:00.rdb'']\<rparr>)"
proof (intro conjI)
  from DoSave_err_details [of env new_version s]
  show "fst (snd (DoSave env new_version s)) \<noteq> ''SAVING - can not save database''"
    by auto
next
  show a: "DoSave sample_env False (sample_server SAVING 0) =
      (None, [],
       \<lparr>global_state = ACTIVE,
        last_save_info = \<lparr>save_time = 1664627400,
                           file_name = ''/data/dump-2022-10-01T12:30:00.rdb'', freq_map = []\<rparr>,
        is_saving = False,
        opened_files = [''/data/dump-2022-10-01T12:30:00.rdb'']\<rparr>)"
    by (rule DoSave_sample) simp
  show "Save sample_env message [''SAVE''] (sample_server SAVING 0) =
      ([SendOk],
       \<lparr>global_state = ACTIVE,
        last_save_info = \<lparr>save_time = 1664627400,
                           file_name = ''/data/dump-2022-10-01T12:30:00.rdb'', freq_map = []\<rparr>,
        is_saving = False,
        opened_files = [''/data/dump-2022-10-01T12:30:00.rdb'']\<rparr>)"
    by (simp add: Save_def a)
qed

lemma scheduler_wakeup_called:
  "fst (scheduler_wakeup spec now env s) \<longleftrightarrow>
     DoesTimeMatchSpecifier spec now \<and> save_time (last_save_info s) sdiv 60 \<noteq> now sdiv 60"
  by (simp add: scheduler_wakeup_def Let_def split: prod.splits)

lemma scheduler_wakeup_result:
  "fst (scheduler_wakeup spec now env s) \<Longrightarrow>
   snd (scheduler_wakeup spec now env s) = (fst (DoSave env False s), snd (snd (DoSave env False s)))"
  by (simp add: scheduler_wakeup_def Let_def split: prod.splits if_splits)

lemma SnapshotScheduling_saves_match:
  "t \<in> set (snd (SnapshotScheduling spec wakeups s)) \<Longrightarrow> DoesTimeMatchSpecifier spec t"
proof (induction wakeups arbitrary: s)
  case Nil
  then show ?case by simp
next
  case (Cons w wakeups)
  obtain now env where w: "w = (now, env)" by (cases w) auto
  obtain called ec s1 where st: "scheduler_wakeup spec now env s = (called, ec, s1)"
    by (cases "scheduler_wakeup spec now env s") auto
  obtain s2 saves where rest: "SnapshotScheduling spec wakeups s1 = (s2, saves)"
    by (cases "SnapshotScheduling spec wakeups s1") auto
  from Cons.prems w st rest have "t \<in> set (if called then now # saves else saves)" by simp
  then have "(called \<and> t = now) \<or> t \<in> set saves" by (auto split: if_splits)
  then show ?case
  proof
    assume "called \<and> t = now"
    with st scheduler_wakeup_called [of spec now env s] show ?thesis by simp
  next
    assume "t \<in> set saves"
    with rest have "t \<in> set (snd (SnapshotScheduling spec wakeups s1))" by simp
    then show ?thesis by (rule Cons.IH)
  qed
qed

text \<open>
  Claim C4, as amended. On a wake-up the scheduler calls \<open>DoSave(new_version = false)\<close>
  exactly when \<open>DoesTimeMatchSpecifier(spec, now)\<close> holds and the last recorded save time
  lies in another wall-clock minute than \<open>now\<close>; the result of the wake-up is then the
  result of that call. Consequently, once a scheduled save has succeeded, a wake-up in
  the minute of its recorded save time starts no further save; and in every run each
  wake-up time at which a save was started matches the specifier.
\<close>

theorem scheduler_wakeup_guard:
  "(fst (scheduler_wakeup spec now env s) \<longleftrightarrow>
      DoesTimeMatchSpecifier spec now \<and> save_time (last_save_info s) sdiv 60 \<noteq> now sdiv 60)
   \<and> (fst (scheduler_wakeup spec now env s) \<longrightarrow>
      snd (scheduler_wakeup spec now env s)
        = (fst (DoSave env False s), snd (snd (DoSave env False s))))
   \<and> (scheduler_wakeup spec now env s = (True, None, s1) \<and> Now env sdiv 60 = now2 sdiv 60 \<longrightarrow>
      \<not> fst (scheduler_wakeup spec now2 env2 s1))
   \<and> (\<forall>t \<in> set (snd (SnapshotScheduling spec wakeups s)). DoesTimeMatchSpecifier spec t)"
proof (intro conjI impI ballI)
  show "fst (scheduler_wakeup spec now env s) \<longleftrightarrow>
      DoesTimeMatchSpecifier spec now \<and> save_time (last_save_info s) sdiv 60 \<noteq> now sdiv 60"
    by (rule scheduler_wakeup_called)
next
  assume "fst (scheduler_wakeup spec now env s)"
  then show "snd (scheduler_wakeup spec now env s)
        = (fst (DoSave env False s), snd (snd (DoSave env False s)))"
    by (rule scheduler_wakeup_result)
next
  assume a: "scheduler_wakeup spec now env s = (True, None, s1) \<and> Now env sdiv 60 = now2 sdiv 60"
  then have "fst (scheduler_wakeup spec now env s)" by simp
  from scheduler_wakeup_result [OF this] a
  have "fst (DoSave env False s) = None" "snd (snd (DoSave env False s)) = s1" by simp_all
  then have "DoSave env False s = (None, fst (snd (DoSave env False s)), s1)"
    by (metis prod.collapse)
  from DoSave_outcome [OF this] have "save_time (last_save_info s1) = Now env" by auto
  with a have "save_time (last_save_info s1) sdiv 60 = now2 sdiv 60" by simp
  then show "\<not> fst (scheduler_wakeup spec now2 env2 s1)"
    by (simp add: scheduler_wakeup_called)
next
  fix t assume "t \<in> set (snd (SnapshotScheduling spec wakeups s))"
  then show "DoesTimeMatchSpecifier spec t" by (rule SnapshotScheduling_saves_match)
qed

lemma sample_time_matches:
  "DoesTimeMatchSpecifier \<lparr>hour_spec = ''12'', minute_spec = ''30''\<rparr> 1664627400"
  "DoesTimeMatchSpecifier \<lparr>hour_spec = ''12'', minute_spec = ''30''\<rparr> 1664627420"
  by (simp_all add: DoesTimeMatchSpecifier_def Let_def to_unsigned_def signed_modulo_int_def
      signed_divide_int_def DoesTimeNibbleMatchSpecifier_def char_val_def numeral_2_eq_2)

lemma sample_minutes:
  "(0::int) sdiv 60 = 0" "(1664627400::int) sdiv 60 = 27743790"
  "(1664627420::int) sdiv 60 = 27743790"
  by (simp_all add: signed_divide_int_def)

lemma sample_wakeup_fails:
  "scheduler_wakeup \<lparr>hour_spec = ''12'', minute_spec = ''30''\<rparr> 1664627400 failing_env
       (sample_server ACTIVE 0) = (True, Some (os_error 13), sample_server ACTIVE 0)"
  "scheduler_wakeup \<lparr>hour_spec = ''12'', minute_spec = ''30''\<rparr> 1664627420 failing_env
       (sample_server ACTIVE 0) = (True, Some (os_error 13), sample_server ACTIVE 0)"
proof -
  have t: "save_time (last_save_info (sample_server ACTIVE 0)) = 0"
    by (simp add: sample_server_def)
  have f: "DoSave failing_env False (sample_server ACTIVE 0)
        = (Some (os_error 13), [], sample_server ACTIVE 0)"
    by (rule DoSave_failing) simp
  show "scheduler_wakeup \<lparr>hour_spec = ''12'', minute_spec = ''30''\<rparr> 1664627400 failing_env
       (sample_server ACTIVE 0) = (True, Some (os_error 13), sample_server ACTIVE 0)"
    unfolding scheduler_wakeup_def Let_def t f by (simp add: sample_time_matches sample_minutes)
  show "scheduler_wakeup \<lparr>hour_spec = ''12'', minute_spec = ''30''\<rparr> 1664627420 failing_env
       (sample_server ACTIVE 0) = (True, Some (os_error 13), sample_server ACTIVE 0)"
    unfolding scheduler_wakeup_def Let_def t f by (simp add: sample_time_matches sample_minutes)
qed

text \<open>
  The claim as stated has the scheduler never start two saves within one minute. A save
  that fails records nothing, so the wake-up 20 seconds later, in the same minute,
  starts another: here both wake-ups at 12:30 call \<open>DoSave\<close>.
\<close>

theorem SnapshotScheduling_same_minute_counterexample:
  "SnapshotScheduling \<lparr>hour_spec = ''12'', minute_spec = ''30''\<rparr>
       [(1664627400, failing_env), (1664627420, failing_env)] (sample_server ACTIVE 0)
     = (sample_server ACTIVE 0, [1664627400, 1664627420])
   \<and> (1664627400::int) sdiv 60 = 1664627420 sdiv 60
   \<and> \<not> distinct (map (\<lambda>t. t sdiv 60)
          (snd (SnapshotScheduling \<lparr>hour_spec = ''12'', minute_spec = ''30''\<rparr>
             [(1664627400, failing_env), (1664627420, failing_env)] (sample_server ACTIVE 0))))"
proof -
  have r: "SnapshotScheduling \<lparr>hour_spec = ''12'', minute_spec = ''30''\<rparr>
       [(1664627400, failing_env), (1664627420, failing_env)] (sample_server ACTIVE 0)
     = (sample_server ACTIVE 0, [1664627400, 1664627420])"
    by (simp add: sample_wakeup_fails)
  show ?thesis unfolding r by (simp add: sample_minutes)
qed

theorem scheduler_wakeup_guard_witness:
  "scheduler_wakeup \<lparr>hour_spec = ''12'', minute_spec = ''30''\<rparr> 1664627400 sample_env
       (sample_server ACTIVE 0)
     = (True, None,
        \<lparr>global_state = ACTIVE,
         last_save_info = \<lparr>save_time = 1664627400,
                            file_name = ''/data/dump-2022-10-01T12:30:00.rdb'', freq_map = []\<rparr>,
         is_saving = False,
         opened_files = [''/data/dump-2022-10-01T12:30:00.rdb'']\<rparr>)
   \<and> Now sample_env sdiv 60 = 1664627420 sdiv 60
   \<and> \<not> fst (scheduler_wakeup \<lparr>hour_spec = ''12'', minute_spec = ''30''\<rparr> 1664627420 sample_env
        \<lparr>global_state = ACTIVE,
         last_save_info = \<lparr>save_time = 1664627400,
                            file_name = ''/data/dump-2022-10-01T12:30:00.rdb'', freq_map = []\<rparr>,
         is_saving = False,
         opened_files = [''/data/dump-2022-10-01T12:30:00.rdb'']\<rparr>)
   \<and> 1664627400 \<in> set (snd (SnapshotScheduling \<lparr>hour_spec = ''12'', minute_spec = ''30''\<rparr>
          [(1664627400, failing_env)] (sample_server ACTIVE 0)))
   \<and> DoesTimeMatchSpecifier \<lparr>hour_spec = ''12'', minute_spec = ''30''\<rparr> 1664627400"
proof -
  let ?spec = "\<lparr>hour_spec = ''12'', minute_spec = ''30''\<rparr>"
  let ?s1 = "\<lparr>global_state = ACTIVE,
         last_save_info = \<lparr>save_time = 1664627400,
                            file_name = ''/data/dump-2022-10-01T12:30:00.rdb'', freq_map = []\<rparr>,
         is_saving = False,
         opened_files = [''/data/dump-2022-10-01T12:30:00.rdb'']\<rparr>"
  have t: "save_time (last_save_info (sample_server ACTIVE 0)) = 0"
    by (simp add: sample_server_def)
  have d: "DoSave sample_env False (sample_server ACTIVE 0) = (None, [], ?s1)"
    by (rule DoSave_sample) simp
  have a: "scheduler_wakeup ?spec 1664627400 sample_env (sample_server ACTIVE 0)
      = (True, None, ?s1)"
    unfolding scheduler_wakeup_def Let_def t d by (simp add: sample_time_matches sample_minutes)
  have b: "Now sample_env sdiv 60 = 1664627420 sdiv 60"
    by (simp add: sample_env_def sample_minutes)
  have m: "1664627400 \<in> set (snd (SnapshotScheduling ?spec [(1664627400, failing_env)]
      (sample_server ACTIVE 0)))"
    by (simp add: sample_wakeup_fails)
  note g = scheduler_wakeup_guard [of ?spec 1664627400 sample_env "sample_server ACTIVE 0"
      ?s1 1664627420 sample_env "[(1664627400, failing_env)]"]
  from g a b have c: "\<not> fst (scheduler_wakeup ?spec 1664627420 sample_env ?s1)" by blast
  from g m have e: "DoesTimeMatchSpecifier ?spec 1664627400" by blast
  from a b c m e show ?thesis by blast
qed

end
